theory Spec2Isabelle
  imports Main "HOL-Library.Sublist" "HOL-Library.AList"
begin

section \<open>Python strings\<close>

text \<open>
  A Python \<open>str\<close> is modelled as a \<open>string\<close> whose characters are the code points
  0 to 255 (Latin-1). The predicates below are Python's own on that range:
  \<open>str.isspace\<close>, \<open>str.isdigit\<close>, the decimal digits accepted by \<open>int()\<close> and
  matched by \<open>\d\<close>, and \<open>str.lower\<close>. Code points above 255 are outside the model.
\<close>

definition py_isspace :: "char \<Rightarrow> bool" where
  "py_isspace c =
     (let n = (of_char c :: nat)
      in (9 \<le> n \<and> n \<le> 13) \<or> (28 \<le> n \<and> n \<le> 32) \<or> n = 133 \<or> n = 160)"

definition py_isdecimal :: "char \<Rightarrow> bool" where
  "py_isdecimal c = (let n = (of_char c :: nat) in 48 \<le> n \<and> n \<le> 57)"

definition py_isdigit :: "char \<Rightarrow> bool" where
  \<comment> \<open>\<open>str.isdigit\<close> also accepts the superscript digits U+00B2, U+00B3, U+00B9.\<close>
  "py_isdigit c =
     (let n = (of_char c :: nat) in (48 \<le> n \<and> n \<le> 57) \<or> n = 178 \<or> n = 179 \<or> n = 185)"

definition py_lower_char :: "char \<Rightarrow> char" where
  "py_lower_char c =
     (let n = (of_char c :: nat)
      in if (65 \<le> n \<and> n \<le> 90) \<or> (192 \<le> n \<and> n \<le> 222 \<and> n \<noteq> 215)
         then char_of (n + 32) else c)"

definition py_lower :: "string \<Rightarrow> string" where
  "py_lower s = map py_lower_char s"

definition py_lstrip :: "string \<Rightarrow> string" where
  "py_lstrip s = dropWhile py_isspace s"

definition py_rstrip :: "string \<Rightarrow> string" where
  "py_rstrip s = rev (dropWhile py_isspace (rev s))"

definition py_strip :: "string \<Rightarrow> string" where
  "py_strip s = py_rstrip (py_lstrip s)"

definition truthy :: "string option \<Rightarrow> bool" where
  \<comment> \<open>Truth value of a \<open>str | None\<close>: \<open>None\<close> and \<open>""\<close> are false.\<close>
  "truthy v = (case v of None \<Rightarrow> False | Some s \<Rightarrow> s \<noteq> [])"

definition or_empty :: "string option \<Rightarrow> string" where
  \<comment> \<open>\<open>v or ""\<close>\<close>
  "or_empty v = (case v of None \<Rightarrow> [] | Some s \<Rightarrow> s)"

section \<open>utils/normalise.py\<close>

text \<open>
  Matching a literal (lower-case) pattern at the start of a string under \<open>re.I\<close>: the
  result is the text after the match.
\<close>

fun imatch_lit :: "string \<Rightarrow> string \<Rightarrow> string option" where
  "imatch_lit [] s = Some s"
| "imatch_lit (p # ps) [] = None"
| "imatch_lit (p # ps) (c # cs) = (if py_lower_char c = p then imatch_lit ps cs else None)"

definition opt_then :: "(string \<Rightarrow> string option) \<Rightarrow> (string \<Rightarrow> string option) \<Rightarrow> string \<Rightarrow> string option" where
  \<comment> \<open>The regular expression \<open>(a)?b\<close>: greedy, and without \<open>a\<close> when that fails.\<close>
  "opt_then a b s =
     (case (case a s of Some r \<Rightarrow> b r | None \<Rightarrow> None) of
        Some r \<Rightarrow> Some r
      | None \<Rightarrow> b s)"

definition doi_prefix :: "string \<Rightarrow> string option" where
  \<comment> \<open>\<open>^https?://(dx\.)?doi\.org/\<close> with \<open>re.I\<close>; the text after the match.\<close>
  "doi_prefix s =
     (case imatch_lit ''http'' s of
        None \<Rightarrow> None
      | Some r1 \<Rightarrow>
          opt_then (imatch_lit ''s'')
            (\<lambda>r2. case imatch_lit ''://'' r2 of
                     None \<Rightarrow> None
                   | Some r3 \<Rightarrow> opt_then (imatch_lit ''dx.'') (imatch_lit ''doi.org/'') r3) r1)"

definition re_sub_doi_prefix :: "string \<Rightarrow> string" where
  "re_sub_doi_prefix s = (case doi_prefix s of Some r \<Rightarrow> r | None \<Rightarrow> s)"

definition normalise_doi :: "string option \<Rightarrow> string option" where
  "normalise_doi doi =
     (case doi of
        None \<Rightarrow> None
      | Some d \<Rightarrow>
          if d = [] then None
          else Some (py_lower (re_sub_doi_prefix (py_strip d))))"

definition modern_at :: "string \<Rightarrow> string option" where
  \<comment> \<open>\<open>(\d{4}\.\d{4,5}(v\d+)?)\<close> matched at the start of the string; group 1.\<close>
  "modern_at s =
     (let a = take 4 s; r = drop 4 s
      in if length a = 4 \<and> list_all py_isdecimal a then
           (case r of
              [] \<Rightarrow> None
            | dot # r' \<Rightarrow>
                if dot = CHR ''.'' then
                  (let b = takeWhile py_isdecimal (take 5 r')
                   in if 4 \<le> length b then
                        (case drop (length b) r' of
                           [] \<Rightarrow> Some (a @ ''.'' @ b)
                         | v # t \<Rightarrow>
                             if v = CHR ''v'' \<and> takeWhile py_isdecimal t \<noteq> []
                             then Some (a @ ''.'' @ b @ v # takeWhile py_isdecimal t)
                             else Some (a @ ''.'' @ b))
                      else None)
                else None)
         else None)"

fun search_modern :: "string \<Rightarrow> string option" where
  "search_modern [] = None"
| "search_modern (c # cs) =
     (case modern_at (c # cs) of Some m \<Rightarrow> Some m | None \<Rightarrow> search_modern cs)"

definition legacy_at :: "string \<Rightarrow> string option" where
  \<comment> \<open>\<open>arxiv\.org/(abs|pdf)/([^/?#]+)\<close> with \<open>re.I\<close>, at the start of the string; group 2.\<close>
  "legacy_at s =
     (case imatch_lit ''arxiv.org/'' s of
        None \<Rightarrow> None
      | Some r \<Rightarrow>
          (case (case imatch_lit ''abs'' r of Some r' \<Rightarrow> Some r' | None \<Rightarrow> imatch_lit ''pdf'' r) of
             None \<Rightarrow> None
           | Some r2 \<Rightarrow>
               (case imatch_lit ''/'' r2 of
                  None \<Rightarrow> None
                | Some r3 \<Rightarrow>
                    (let g = takeWhile (\<lambda>c. c \<noteq> CHR ''/'' \<and> c \<noteq> CHR ''?'' \<and> c \<noteq> CHR ''#'') r3
                     in if g = [] then None else Some g))))"

fun search_legacy :: "string \<Rightarrow> string option" where
  "search_legacy [] = None"
| "search_legacy (c # cs) =
     (case legacy_at (c # cs) of Some g \<Rightarrow> Some g | None \<Rightarrow> search_legacy cs)"

definition extract_arxiv_id :: "string option \<Rightarrow> string option" where
  "extract_arxiv_id url_or_id =
     (case url_or_id of
        None \<Rightarrow> None
      | Some u \<Rightarrow>
          if u = [] then None
          else (let s = py_strip u
                in case search_modern s of
                     Some m \<Rightarrow> Some m
                   | None \<Rightarrow>
                       (case search_legacy s of
                          Some g \<Rightarrow> Some g
                        | None \<Rightarrow> Some s)))"

section \<open>models.py\<close>

record Record =
  source :: string
  doi :: "string option"
  arxiv_id :: "string option"
  title :: "string option"
  authors :: "string list"
  abstract :: "string option"
  published :: "string option"
  url :: "string option"
  venue :: "string option"
  pdf_url :: "string option"
  license :: "string option"

section \<open>Exceptions and JSON values\<close>

datatype error =
    RuntimeError string
  | RequestException string
  | ValueError string
  | TypeError string
  | OverflowError
  | ZeroDivisionError

text \<open>A decoded JSON document. Numbers are restricted to integers.\<close>

datatype json = JNull | JBool bool | JNum int | JStr string | JArr "json list" | JObj "(string \<times> json) list"

fun json_truthy :: "json \<Rightarrow> bool" where
  "json_truthy JNull = False"
| "json_truthy (JBool b) = b"
| "json_truthy (JNum n) = (n \<noteq> 0)"
| "json_truthy (JStr s) = (s \<noteq> [])"
| "json_truthy (JArr xs) = (xs \<noteq> [])"
| "json_truthy (JObj kvs) = (kvs \<noteq> [])"

fun py_len :: "json \<Rightarrow> nat option" where
  \<comment> \<open>\<open>len(v)\<close>; \<open>None\<close> where Python raises \<open>TypeError\<close>.\<close>
  "py_len (JArr xs) = Some (length xs)"
| "py_len (JStr s) = Some (length s)"
| "py_len (JObj kvs) = Some (length kvs)"
| "py_len v = None"

definition dict_update :: "('k \<times> 'v) list \<Rightarrow> ('k \<times> 'v) list \<Rightarrow> ('k \<times> 'v) list" where
  \<comment> \<open>\<open>d.update(other)\<close> on an insertion-ordered dict; \<open>d[k] = v\<close> is \<open>AList.update k v d\<close>.\<close>
  "dict_update d other = foldl (\<lambda>acc kv. AList.update (fst kv) (snd kv) acc) d other"

section \<open>utils/http.py\<close>

text \<open>
  The network is an oracle: \<open>net k rq\<close> is what the \<open>k\<close>-th call of \<open>session.get\<close> of the
  run gives when it sends the request \<open>rq\<close>, so a server may answer by its history as
  well as by the request. The number of calls made so far is the state that the
  functions below pass on. \<open>Failed e\<close> is a \<open>requests.RequestException\<close>. Of the headers
  of a response the model keeps \<open>r.headers.get("Retry-After")\<close>, the only one that is
  read; no caller uses the headers that \<open>http_get\<close> returns.
\<close>

record request =
  rq_url :: string
  rq_params :: "(string \<times> json) list"
  rq_headers :: "(string \<times> string) list"

datatype outcome = Response int string "string option" | Failed string

type_synonym network = "nat \<Rightarrow> request \<Rightarrow> outcome"

definition RETRYABLE_STATUS :: "int set" where
  "RETRYABLE_STATUS = {429, 500, 502, 503, 504}"

text \<open>
  Floating point is not modelled. What matters of a float is what \<open>time.sleep\<close> does with
  it: it raises \<open>ValueError\<close> on nan and \<open>OverflowError\<close> on a value beyond its range
  (infinity included), and returns otherwise. \<open>float(ra)\<close> is a parameter \<open>to_float\<close> that
  gives this class of the value, or \<open>None\<close> where \<open>float\<close> raises \<open>ValueError\<close>. The
  computed \<open>sleep_s\<close> lies between 0 and \<open>max_sleep\<close>, so \<open>max(retry_after, sleep_s)\<close> is
  nan or beyond the range exactly when \<open>retry_after\<close> is.
\<close>

datatype pyfloat = Sleepable | NaN | TooLarge

definition sleep_after :: "(string \<Rightarrow> pyfloat option) \<Rightarrow> string option \<Rightarrow> error option" where
  \<comment> \<open>Lines 35 to 43: what the sleep after a retryable status raises, if anything.
      \<open>retry_after\<close> is 0.0 without a header and when \<open>float(ra)\<close> raises \<open>ValueError\<close>.\<close>
  "sleep_after to_float ra =
     (let retry_after =
            (if truthy ra
             then (case to_float (or_empty ra) of None \<Rightarrow> Sleepable | Some f \<Rightarrow> f)
             else Sleepable)
      in case retry_after of
           Sleepable \<Rightarrow> None
         | NaN \<Rightarrow> Some (ValueError ''Invalid value NaN (not a number)'')
         | TooLarge \<Rightarrow> Some OverflowError)"

fun http_get_loop ::
  "(string \<Rightarrow> pyfloat option) \<Rightarrow> network \<Rightarrow> request \<Rightarrow> nat \<Rightarrow> string option \<Rightarrow> nat \<Rightarrow>
   (error + int \<times> string) \<times> nat" where
  "http_get_loop to_float net rq 0 last_exc k =
     (case last_exc of
        Some e \<Rightarrow> (Inl (RequestException e), k)
      | None \<Rightarrow> (Inl (RuntimeError (''Exceeded retries for '' @ rq_url rq)), k))"
| "http_get_loop to_float net rq (Suc n) last_exc k =
     (case net k rq of
        Response status text ra \<Rightarrow>
          if status < 400 then (Inr (status, text), Suc k)
          else if status \<in> RETRYABLE_STATUS then
            (case sleep_after to_float ra of
               Some e \<Rightarrow> (Inl e, Suc k)
             | None \<Rightarrow> http_get_loop to_float net rq n last_exc (Suc k))
          else (Inr (status, text), Suc k)
      | Failed e \<Rightarrow> http_get_loop to_float net rq n (Some e) (Suc k))"

definition http_get ::
  "(string \<Rightarrow> pyfloat option) \<Rightarrow> network \<Rightarrow> request \<Rightarrow> int \<Rightarrow> nat \<Rightarrow> (error + int \<times> string) \<times> nat" where
  \<comment> \<open>\<open>for attempt in range(retries)\<close>; the callers leave \<open>retries\<close> at its default, 5.\<close>
  "http_get to_float net rq retries k = http_get_loop to_float net rq (nat retries) None k"

section \<open>agents/fetch.py\<close>

record paginate_conf =
  pg_strategy :: "string option"
  pg_limit :: "int option"
  pg_rows :: "int option"
  pg_page_size :: "int option"
  pg_max_pages :: "int option"

record call_spec =
  sp_url :: string
  sp_params :: "(string \<times> json) list"
  sp_headers :: "(string \<times> string) list"
  sp_paginate :: "paginate_conf option"

definition default_headers :: "string \<Rightarrow> (string \<times> string) list" where
  "default_headers contact_email =
     [(''User-Agent'', ''aro-agent/1 (+mailto:'' @ contact_email @ '')''),
      (''Accept'', ''application/json,text/plain;q=0.9,*/*;q=0.1'')]"

definition get_or :: "'a option \<Rightarrow> 'a \<Rightarrow> 'a" where
  \<comment> \<open>\<open>d.get(key, default)\<close>, the key's value being the option.\<close>
  "get_or v d = (case v of None \<Rightarrow> d | Some x \<Rightarrow> x)"

definition parse_page :: "(string \<Rightarrow> json option) \<Rightarrow> string \<Rightarrow> json \<times> json" where
  \<comment> \<open>The \<open>try\<close> block of the loop: \<open>(items, next_cursor)\<close>, and \<open>([], None)\<close> on any exception
      (\<open>json.loads\<close> fails, or \<open>.get\<close> is called on something that is not a dict).\<close>
  "parse_page loads txt =
     (case loads txt of
        Some (JObj j) \<Rightarrow>
          (case get_or (map_of j ''message'') (JObj []) of
             JObj m \<Rightarrow> (get_or (map_of m ''items'') (JArr []), get_or (map_of m ''next-cursor'') JNull)
           | _ \<Rightarrow> (JArr [], JNull))
      | _ \<Rightarrow> (JArr [], JNull))"

fun crossref_loop ::
  "(string \<Rightarrow> pyfloat option) \<Rightarrow> network \<Rightarrow> (string \<Rightarrow> json option) \<Rightarrow> string \<Rightarrow>
   (string \<times> string) list \<Rightarrow> int \<Rightarrow> nat \<Rightarrow> (string \<times> json) list \<Rightarrow> nat \<Rightarrow> string list \<Rightarrow> nat \<Rightarrow>
   (error + string list) \<times> nat" where
  "crossref_loop to_float net loads u headers limit 0 params fetched out k = (Inr out, k)"
| "crossref_loop to_float net loads u headers limit (Suc n) params fetched out k =
     (case http_get to_float net \<lparr>rq_url = u, rq_params = params, rq_headers = headers\<rparr> 5 k of
        (Inl e, k') \<Rightarrow> (Inl e, k')
      | (Inr (status, txt), k') \<Rightarrow>
          if status \<noteq> 200 \<or> txt = [] then (Inr out, k')
          else (case parse_page loads txt of
                  (items, next_cursor) \<Rightarrow>
                    (case py_len items of
                       None \<Rightarrow> (Inl (TypeError ''len''), k')
                     | Some l \<Rightarrow>
                         if \<not> json_truthy items \<or> limit \<le> int (fetched + l) \<or> \<not> json_truthy next_cursor
                         then (Inr (out @ [txt]), k')
                         else crossref_loop to_float net loads u headers limit n
                                (AList.update ''cursor'' next_cursor params) (fetched + l) (out @ [txt]) k')))"

definition crossref_params :: "call_spec \<Rightarrow> (string \<times> json) list" where
  \<comment> \<open>The request parameters before the first page.\<close>
  "crossref_params spec =
     (let pconf = sp_paginate spec;
          rows = get_or (case pconf of None \<Rightarrow> None | Some c \<Rightarrow> pg_rows c) 100;
          params = AList.update ''rows'' (JNum rows) (sp_params spec);
          cur = get_or (map_of params ''cursor'') JNull
      in AList.update ''cursor'' (if json_truthy cur then cur else JStr ''*'') params)"

definition paginate_crossref ::
  "(string \<Rightarrow> pyfloat option) \<Rightarrow> network \<Rightarrow> (string \<Rightarrow> json option) \<Rightarrow> call_spec \<Rightarrow> string \<Rightarrow> nat \<Rightarrow>
   (error + string list) \<times> nat" where
  "paginate_crossref to_float net loads spec contact_email k =
     (let pconf = sp_paginate spec;
          limit = get_or (case pconf of None \<Rightarrow> None | Some c \<Rightarrow> pg_limit c) 200;
          headers = dict_update (default_headers contact_email) (sp_headers spec);
          max_pages = get_or (case pconf of None \<Rightarrow> None | Some c \<Rightarrow> pg_max_pages c) 100
      in crossref_loop to_float net loads (sp_url spec) headers limit (nat max_pages)
           (crossref_params spec) 0 [] k)"

section \<open>config.py and agents/discovery.py\<close>

definition ARXIV_API :: string where "ARXIV_API = ''http://export.arxiv.org/api/query''"
definition CROSSREF_API :: string where "CROSSREF_API = ''https://api.crossref.org/works''"
definition DOAJ_API :: string where "DOAJ_API = ''https://doaj.org/api/v2/search/articles/''"

definition user_agent :: "string \<Rightarrow> string" where
  "user_agent contact_email =
     ''aro-agent/0.1 (+https://example.org/contact; mailto:'' @ contact_email @ '')''"

function str_nat :: "nat \<Rightarrow> string" where
  "str_nat n = (if n < 10 then [char_of (48 + n)] else str_nat (n div 10) @ [char_of (48 + n mod 10)])"
  by pat_completeness auto
termination
  by (relation "measure id") auto

definition str_int :: "int \<Rightarrow> string" where
  \<comment> \<open>\<open>str(i)\<close> of an \<open>int\<close>\<close>
  "str_int i = (if i < 0 then CHR ''-'' # str_nat (nat (- i)) else str_nat (nat i))"

definition int_truthy :: "int option \<Rightarrow> bool" where
  \<comment> \<open>Truth value of an \<open>int | None\<close>: \<open>None\<close> and \<open>0\<close> are false.\<close>
  "int_truthy v = (case v of None \<Rightarrow> False | Some i \<Rightarrow> i \<noteq> 0)"

definition join_comma :: "string list \<Rightarrow> string" where
  "join_comma parts = (case parts of [] \<Rightarrow> [] | p # ps \<Rightarrow> foldl (\<lambda>acc x. acc @ '','' @ x) p ps)"

definition enabled :: "(string \<rightharpoonup> bool) \<Rightarrow> string \<Rightarrow> bool" where
  \<comment> \<open>\<open>enable_sources.get(key, True)\<close>\<close>
  "enabled enable_sources key = get_or (enable_sources key) True"

definition plan ::
  "(string \<Rightarrow> string) \<Rightarrow> string \<Rightarrow> string \<Rightarrow> int \<Rightarrow> (string \<rightharpoonup> bool) \<Rightarrow> int option \<Rightarrow> int option \<Rightarrow>
   error + (string \<times> call_spec) list" where
  \<comment> \<open>The first argument is \<open>urllib.parse.quote\<close>. The result is the \<open>tasks\<close> dict, in
      insertion order.\<close>
  "plan quote contact_email query per_source_limit enable_sources from_year to_year =
     (let q = py_strip query;
          page_size = min per_source_limit 100
      in if page_size = 0 then Inl ZeroDivisionError
         else
          (let pages = max 1 ((per_source_limit + page_size - 1) div page_size);
               tasks0 = [];
               tasks1 =
                 (if enabled enable_sources ''crossref'' then
                    (let cr_filter_parts =
                           (if int_truthy from_year
                            then [''from-pub-date:'' @ str_int (the from_year) @ ''-01-01''] else [])
                           @ (if int_truthy to_year
                              then [''until-pub-date:'' @ str_int (the to_year) @ ''-12-31''] else []);
                         params0 =
                           [(''query'', JStr q),
                            (''select'', JStr ''DOI,title,author,container-title,issued,URL,license'')];
                         params =
                           (if cr_filter_parts \<noteq> []
                            then AList.update ''filter'' (JStr (join_comma cr_filter_parts)) params0
                            else params0)
                     in AList.update ''crossref''
                          \<lparr>sp_url = CROSSREF_API, sp_params = params,
                           sp_headers = [(''User-Agent'', user_agent contact_email)],
                           sp_paginate = Some \<lparr>pg_strategy = Some ''crossref'',
                             pg_limit = Some per_source_limit, pg_rows = Some 100,
                             pg_page_size = None, pg_max_pages = Some 50\<rparr>\<rparr> tasks0)
                  else tasks0);
               tasks2 =
                 (if enabled enable_sources ''arxiv'' then
                    AList.update ''arxiv''
                      \<lparr>sp_url = ARXIV_API,
                       sp_params = [(''search_query'', JStr (''all:'' @ q)),
                                    (''sortBy'', JStr ''submittedDate''),
                                    (''sortOrder'', JStr ''descending'')],
                       sp_headers = [(''User-Agent'', user_agent contact_email)],
                       sp_paginate = Some \<lparr>pg_strategy = Some ''arxiv'',
                         pg_limit = Some per_source_limit, pg_rows = None,
                         pg_page_size = Some 100, pg_max_pages = Some 50\<rparr>\<rparr> tasks1
                  else tasks1);
               tasks3 =
                 (if enabled enable_sources ''doaj'' then
                    AList.update ''doaj''
                      \<lparr>sp_url = DOAJ_API @ quote q, sp_params = [],
                       sp_headers = [(''User-Agent'', user_agent contact_email)],
                       sp_paginate = Some \<lparr>pg_strategy = Some ''doaj'',
                         pg_limit = Some per_source_limit, pg_rows = None,
                         pg_page_size = Some 100, pg_max_pages = Some 50\<rparr>\<rparr> tasks2
                  else tasks2)
           in Inr tasks3))"

definition spec_page_size :: "call_spec \<Rightarrow> int option" where
  \<comment> \<open>The per-page size a call spec carries: \<open>rows\<close> for Crossref, \<open>page_size\<close> otherwise.\<close>
  "spec_page_size spec =
     (case sp_paginate spec of
        None \<Rightarrow> None
      | Some c \<Rightarrow> (case pg_rows c of Some r \<Rightarrow> Some r | None \<Rightarrow> pg_page_size c))"

section \<open>agents/extract.py\<close>

text \<open>
  A raw blob is a string or a list of strings. The three parsers are parameters of
  \<open>process\<close>; a parser returns the records of one chunk or raises.
\<close>

datatype blob = Text string | Chunks "string list"

definition blob_truthy :: "blob option \<Rightarrow> bool" where
  "blob_truthy b = (case b of None \<Rightarrow> False | Some (Text s) \<Rightarrow> s \<noteq> [] | Some (Chunks cs) \<Rightarrow> cs \<noteq> [])"

definition each :: "blob option \<Rightarrow> string list" where
  \<comment> \<open>\<open>_each\<close>, called on truthy blobs only\<close>
  "each b = (case b of None \<Rightarrow> [] | Some (Text s) \<Rightarrow> [s] | Some (Chunks cs) \<Rightarrow> cs)"

fun extend_chunks :: "(string \<Rightarrow> error + Record list) \<Rightarrow> string list \<Rightarrow> Record list \<Rightarrow> error + Record list" where
  "extend_chunks parse [] out = Inr out"
| "extend_chunks parse (chunk # chunks) out =
     (case parse chunk of
        Inl e \<Rightarrow> Inl e
      | Inr rs \<Rightarrow> extend_chunks parse chunks (out @ rs))"

definition process ::
  "(string \<Rightarrow> error + Record list) \<Rightarrow> (string \<Rightarrow> error + Record list) \<Rightarrow> (string \<Rightarrow> error + Record list) \<Rightarrow>
   (string \<rightharpoonup> blob) \<Rightarrow> error + Record list" where
  "process from_arxiv from_crossref from_doaj raw_blobs =
     (case (if blob_truthy (raw_blobs ''arxiv'')
            then extend_chunks from_arxiv (each (raw_blobs ''arxiv'')) [] else Inr []) of
        Inl e \<Rightarrow> Inl e
      | Inr out1 \<Rightarrow>
          (case (if blob_truthy (raw_blobs ''crossref'')
                 then extend_chunks from_crossref (each (raw_blobs ''crossref'')) out1 else Inr out1) of
             Inl e \<Rightarrow> Inl e
           | Inr out2 \<Rightarrow>
               (if blob_truthy (raw_blobs ''doaj'')
                then extend_chunks from_doaj (each (raw_blobs ''doaj'')) out2 else Inr out2)))"

section \<open>agents/storage.py\<close>

fun until_sep :: "string \<Rightarrow> string \<Rightarrow> string" where
  \<comment> \<open>The text before the first occurrence of the separator (all of it when there is none).\<close>
  "until_sep sep [] = []"
| "until_sep sep (c # cs) = (if prefix sep (c # cs) then [] else c # until_sep sep cs)"

definition primary_id_from_row :: "Record \<Rightarrow> string option" where
  \<comment> \<open>\<open>_primary_id_from_row\<close>, the same in storage.py and in \<open>CoordinatorAgent\<close>; of a row it
      reads \<open>doi\<close> and \<open>arxiv_id\<close>. \<open>doi.split(p)[1]\<close> of a string that starts with \<open>p\<close> is the text
      between that occurrence and the next one.\<close>
  "primary_id_from_row r =
     (let d0 = py_lower (py_strip (or_empty (doi r)));
          d = (if prefix ''https://doi.org/'' d0
               then until_sep ''https://doi.org/'' (drop (length ''https://doi.org/'') d0) else d0);
          arxiv = py_lower (py_strip (or_empty (arxiv_id r)))
      in if d \<noteq> [] then Some d
         else if arxiv \<noteq> [] then Some (''arxiv:'' @ arxiv) else None)"

text \<open>A row of results.json: the fields of the record and \<open>primary_id\<close>.\<close>

record Row =
  row_record :: Record
  primary_id :: "string option"

definition row_of :: "Record \<Rightarrow> Row" where
  \<comment> \<open>\<open>asdict(r)\<close> with \<open>primary_id\<close> added\<close>
  "row_of r = \<lparr>row_record = r, primary_id = primary_id_from_row r\<rparr>"

definition save_rows :: "Record list \<Rightarrow> Row list" where
  \<comment> \<open>The \<open>data\<close> that \<open>save_all\<close> writes to results.json.\<close>
  "save_rows records = map row_of records"

section \<open>agents/coordinator.py\<close>

subsection \<open>The year filter\<close>

definition py_int_digits :: "string \<Rightarrow> int option" where
  \<comment> \<open>\<open>int(s)\<close> of a string of \<open>isdigit\<close> characters: the value when all of them are decimal
      digits, \<open>None\<close> where Python raises \<open>ValueError\<close>.\<close>
  "py_int_digits s =
     (if s \<noteq> [] \<and> list_all py_isdecimal s
      then Some (foldl (\<lambda>acc c. 10 * acc + (int (of_char c) - 48)) 0 s)
      else None)"

definition year_ok :: "int option \<Rightarrow> int option \<Rightarrow> string option \<Rightarrow> error + bool" where
  "year_ok from_year to_year publ =
     (if \<not> (int_truthy from_year \<or> int_truthy to_year) then Inr True
      else if \<not> truthy publ \<or> length (or_empty publ) < 4
              \<or> \<not> list_all py_isdigit (take 4 (or_empty publ)) then Inr False
      else (case py_int_digits (take 4 (or_empty publ)) of
              None \<Rightarrow> Inl (ValueError ''invalid literal for int() with base 10'')
            | Some y \<Rightarrow>
                if from_year \<noteq> None \<and> y < the from_year then Inr False
                else if to_year \<noteq> None \<and> the to_year < y then Inr False
                else Inr True))"

fun year_filter :: "int option \<Rightarrow> int option \<Rightarrow> Record list \<Rightarrow> error + Record list" where
  \<comment> \<open>\<open>[r for r in records if _year_ok(r.published)]\<close>\<close>
  "year_filter from_year to_year [] = Inr []"
| "year_filter from_year to_year (r # rs) =
     (case year_ok from_year to_year (published r) of
        Inl e \<Rightarrow> Inl e
      | Inr keep \<Rightarrow>
          (case year_filter from_year to_year rs of
             Inl e \<Rightarrow> Inl e
           | Inr rs' \<Rightarrow> Inr (if keep then r # rs' else rs')))"

subsection \<open>Deduplication\<close>

definition dedup_key :: "Record \<Rightarrow> string option" where
  \<comment> \<open>\<open>r.doi or (f"arxiv:{r.arxiv_id}" if r.arxiv_id else None)\<close>\<close>
  "dedup_key r =
     (if truthy (doi r) then doi r
      else if truthy (arxiv_id r) then Some (''arxiv:'' @ or_empty (arxiv_id r)) else None)"

fun dedup_loop :: "Record list \<Rightarrow> (string \<times> Record) list \<Rightarrow> (string \<times> Record) list" where
  \<comment> \<open>The dict \<open>dedup\<close> is an association list in insertion order.\<close>
  "dedup_loop [] dedup = dedup"
| "dedup_loop (r # rs) dedup =
     (let key = dedup_key r
      in if truthy key \<and> map_of dedup (or_empty key) = None
         then dedup_loop rs (AList.update (or_empty key) r dedup)
         else dedup_loop rs dedup)"

definition deduplicate :: "Record list \<Rightarrow> Record list" where
  \<comment> \<open>\<open>final = list(dedup.values())\<close>\<close>
  "deduplicate records = map snd (dedup_loop records [])"

subsection \<open>The diff against the previous run\<close>

text \<open>
  The run root is a list of directory entries (in the order \<open>iterdir\<close> gives them), or
  \<open>None\<close> when it does not exist. Of a run directory the model keeps its name, whether
  it is a directory, its modification time, and what reading run.json and results.json
  gives: no file, a file that cannot be read as expected, or the content (the manifest's
  \<open>query\<close>; the rows).
\<close>

datatype run_json = NoRunJson | BadRunJson | RunJson "string option"

datatype results_json = NoResults | BadResults | Results "Row list"

record run_entry =
  e_name :: string
  e_is_dir :: bool
  e_mtime :: int
  e_run_json :: run_json
  e_results :: results_json

definition candidate :: "string \<Rightarrow> string \<Rightarrow> run_entry \<Rightarrow> bool" where
  \<comment> \<open>The tests of the loop body of \<open>_find_previous_run_dir\<close>\<close>
  "candidate query current_run_dir d =
     (e_is_dir d \<and> e_name d \<noteq> current_run_dir \<and> prefix ''run_'' (e_name d)
      \<and> (case e_run_json d of
            RunJson q \<Rightarrow> py_strip (or_empty q) = py_strip query
          | _ \<Rightarrow> False))"

definition find_previous_run_dir :: "run_entry list option \<Rightarrow> string \<Rightarrow> string \<Rightarrow> run_entry option" where
  \<comment> \<open>\<open>candidates.sort(key=mtime, reverse=True)\<close> is stable: among equal times the
      earlier entry stays first.\<close>
  "find_previous_run_dir root query current_run_dir =
     (case root of
        None \<Rightarrow> None
      | Some entries \<Rightarrow>
          (let candidates = map (\<lambda>d. (e_mtime d, d)) (filter (candidate query current_run_dir) entries)
           in case sort_key (\<lambda>x. - fst x) candidates of
                [] \<Rightarrow> None
              | c # _ \<Rightarrow> Some (snd c)))"

definition rows_of :: "results_json \<Rightarrow> Row list" where
  \<comment> \<open>\<open>json.load(f) or []\<close>, and \<open>[]\<close> on any exception\<close>
  "rows_of f = (case f of Results rows \<Rightarrow> rows | _ \<Rightarrow> [])"

definition pid :: "Row \<Rightarrow> string option" where
  \<comment> \<open>\<open>_pid\<close>: \<open>row.get("primary_id") or self._primary_id_from_row(row)\<close>\<close>
  "pid row = (if truthy (primary_id row) then primary_id row else primary_id_from_row (row_record row))"

definition prev_ids :: "Row list \<Rightarrow> string set" where
  "prev_ids prev_rows = set (map or_empty (filter truthy (map pid prev_rows)))"

definition new_rows :: "Row list \<Rightarrow> Row list \<Rightarrow> Row list" where
  \<comment> \<open>\<open>[r for r in cur_rows if _pid(r) not in prev_ids]\<close>; \<open>None\<close> is in no set of strings.\<close>
  "new_rows cur_rows prev_rows =
     filter (\<lambda>r. case pid r of None \<Rightarrow> True | Some p \<Rightarrow> p \<notin> prev_ids prev_rows) cur_rows"

definition write_diff_csv :: "results_json \<Rightarrow> results_json \<Rightarrow> Row list \<times> nat" where
  \<comment> \<open>The rows selected for diff.csv and the returned count. How a row is written (the
      header, \<open>primary_id\<close> filled in where it is missing, the authors joined) is not modelled.\<close>
  "write_diff_csv current_json previous_json =
     (let cur_rows = rows_of current_json;
          prev_rows = rows_of previous_json;
          new = new_rows cur_rows prev_rows
      in (new, length new))"

definition diff_stage ::
  "run_entry list option \<Rightarrow> string \<Rightarrow> string \<Rightarrow> results_json \<Rightarrow> (Row list \<times> nat) option" where
  \<comment> \<open>The \<open>try\<close> block of \<open>run\<close> after the store: \<open>None\<close> when no diff.csv is written.\<close>
  "diff_stage root query run_dir cur_json =
     (case find_previous_run_dir root query run_dir of
        None \<Rightarrow> None
      | Some prev_dir \<Rightarrow>
          if e_results prev_dir \<noteq> NoResults \<and> cur_json \<noteq> NoResults
          then Some (write_diff_csv cur_json (e_results prev_dir))
          else None)"

subsection \<open>The run, from the extracted records on\<close>

record counts =
  fetched :: nat
  filtered :: nat
  deduped :: nat

record run_result =
  final :: "Record list"
  diff :: "(Row list \<times> nat) option"
  manifest_counts :: counts

definition run_from_extracted ::
  "run_entry list option \<Rightarrow> string \<Rightarrow> string \<Rightarrow> int option \<Rightarrow> int option \<Rightarrow> Record list \<Rightarrow> error + run_result" where
  \<comment> \<open>Steps 3 to 5 of \<open>run\<close> and the counts of the manifest, in the order of the source:
      the year filter, the deduplication, the store and the diff, then the counts.\<close>
  "run_from_extracted root query run_dir from_year to_year extracted =
     (case year_filter from_year to_year extracted of
        Inl e \<Rightarrow> Inl e
      | Inr records \<Rightarrow>
          (let fin = deduplicate records;
               d = diff_stage root query run_dir (Results (save_rows fin));
               extracted_count = length records
           in case year_filter from_year to_year records of
                Inl e \<Rightarrow> Inl e
              | Inr records' \<Rightarrow>
                  Inr \<lparr>final = fin, diff = d,
                       manifest_counts = \<lparr>fetched = extracted_count, filtered = length records',
                                          deduped = length fin\<rparr>\<rparr>))"

section \<open>Notions used to state the properties\<close>

fun distinct_first :: "'a list \<Rightarrow> 'a list" where
  \<comment> \<open>The distinct elements of a list, each at the place of its first occurrence.\<close>
  "distinct_first [] = []"
| "distinct_first (x # xs) = x # distinct_first (filter (\<lambda>y. y \<noteq> x) xs)"

definition first_keys :: "Record list \<Rightarrow> string list" where
  \<comment> \<open>The distinct non-null keys of a record stream, in the order of their first appearance.\<close>
  "first_keys rs = distinct_first (List.map_filter dedup_key rs)"

definition first_with_key :: "Record list \<Rightarrow> string \<Rightarrow> Record option" where
  \<comment> \<open>The first record of the stream that carries the key.\<close>
  "first_with_key rs k = find (\<lambda>r. dedup_key r = Some k) rs"

definition records_of :: "(string \<Rightarrow> error + Record list) \<Rightarrow> string list \<Rightarrow> Record list" where
  \<comment> \<open>The records of a source's chunks, chunk after chunk.\<close>
  "records_of parse chunks = concat (map (\<lambda>c. case parse c of Inr rs \<Rightarrow> rs | Inl _ \<Rightarrow> []) chunks)"

definition prior_pids :: "Row list \<Rightarrow> string set" where
  \<comment> \<open>The set of PrimaryIDs of a run's persisted rows.\<close>
  "prior_pids rows = {p. \<exists>r \<in> set rows. pid r = Some p}"

definition rec0 :: "string \<Rightarrow> string option \<Rightarrow> string option \<Rightarrow> string \<Rightarrow> string option \<Rightarrow> Record" where
  \<comment> \<open>A record with the given source, DOI, arXiv id, title and publication date.\<close>
  "rec0 src d a t p =
     \<lparr>source = src, doi = d, arxiv_id = a, title = Some t, authors = [], abstract = None,
      published = p, url = None, venue = None, pdf_url = None, license = None\<rparr>"

definition ten_records :: "Record list" where
  \<comment> \<open>Ten extracted records: eight dated 2020 or 2021, of which the eighth repeats the
      DOI of the first; one dated 2019 and one dated 2022.\<close>
  "ten_records =
     [rec0 ''crossref'' (Some ''10.1/a'') None ''A'' (Some ''2020-01-02''),
      rec0 ''crossref'' (Some ''10.1/b'') None ''B'' (Some ''2020-05''),
      rec0 ''crossref'' (Some ''10.1/c'') None ''C'' (Some ''2021''),
      rec0 ''crossref'' (Some ''10.1/old'') None ''Old'' (Some ''2019-12-31''),
      rec0 ''crossref'' (Some ''10.1/d'') None ''D'' (Some ''2021-12-31''),
      rec0 ''arxiv'' None (Some ''2101.00001'') ''E'' (Some ''2021-01-03T00:00:00Z''),
      rec0 ''arxiv'' None (Some ''2001.00002v2'') ''F'' (Some ''2020-01-04T00:00:00Z''),
      rec0 ''doaj'' (Some ''10.1/new'') None ''New'' (Some ''2022-01-01''),
      rec0 ''doaj'' (Some ''10.1/g'') None ''G'' (Some ''2020''),
      rec0 ''doaj'' (Some ''10.1/a'') None ''A again'' (Some ''2020'')]"

definition chunks_of :: "(string \<rightharpoonup> blob) \<Rightarrow> string \<Rightarrow> string list" where
  \<comment> \<open>The chunks of a source that \<open>process\<close> parses: none when the source's blob is missing or empty.\<close>
  "chunks_of raw_blobs src = (if blob_truthy (raw_blobs src) then each (raw_blobs src) else [])"

definition two_titles :: "Record list" where
  \<comment> \<open>Two records with one DOI and different titles, and between them a record without a key.\<close>
  "two_titles =
     [rec0 ''arxiv'' (Some ''10.1/a'') (Some ''2401.00001'') ''First title'' None,
      rec0 ''crossref'' None None ''No key'' None,
      rec0 ''crossref'' (Some ''10.1/a'') None ''Second title'' None]"

definition sample_parse :: "string \<Rightarrow> string \<Rightarrow> error + Record list" where
  \<comment> \<open>A parser for examples: a chunk is one record with the chunk's text as DOI and title,
      and the chunk \<open>"bad"\<close> makes the parser raise.\<close>
  "sample_parse src chunk =
     (if chunk = ''bad'' then Inl (TypeError ''bad'') else Inr [rec0 src (Some chunk) None chunk None])"

definition sample_blobs :: "string \<rightharpoonup> blob" where
  "sample_blobs =
     [''crossref'' \<mapsto> Chunks [''10.1/a'', ''10.1/b''], ''arxiv'' \<mapsto> Text ''10.1/b'',
      ''doaj'' \<mapsto> Chunks [''10.1/c'']]"

definition rec_x :: Record where "rec_x = rec0 ''crossref'' (Some ''10.1/x'') None ''X'' None"
definition rec_y :: Record where "rec_y = rec0 ''arxiv'' None (Some ''2401.00001'') ''Y'' None"
definition rec_z :: Record where "rec_z = rec0 ''doaj'' (Some ''10.1/z'') None ''Z'' None"

definition sample_root :: "run_entry list option" where
  \<comment> \<open>A run root with three earlier runs, two of them of the query \<open>"deep learning"\<close>, and the
      directory of the current run.\<close>
  "sample_root = Some
     [\<lparr>e_name = ''run_20250101_000000'', e_is_dir = True, e_mtime = 100,
       e_run_json = RunJson (Some ''deep learning''), e_results = Results (save_rows [rec_x])\<rparr>,
      \<lparr>e_name = ''run_20250102_000000'', e_is_dir = True, e_mtime = 200,
       e_run_json = RunJson (Some ''deep learning ''), e_results = Results (save_rows [rec_x, rec_y])\<rparr>,
      \<lparr>e_name = ''run_20250103_000000'', e_is_dir = True, e_mtime = 300,
       e_run_json = RunJson (Some ''graphs''), e_results = Results (save_rows [rec_z])\<rparr>,
      \<lparr>e_name = ''run_20250104_000000'', e_is_dir = True, e_mtime = 400,
       e_run_json = NoRunJson, e_results = NoResults\<rparr>]"


text \<open>
  For a sequence of page bodies \<open>body 0, body 1, \<dots>\<close>: the request parameters of page \<open>j\<close>
  (the cursor is the next-cursor of the page before), the number of items of a page,
  the cumulative item count before page \<open>j\<close>, the condition under which the loop stops
  after page \<open>j\<close> (zero items, the cap reached, or no next cursor), and what it is for
  page \<open>j\<close> to be fetched (the request is answered at once with status 200 and a
  non-empty body whose items have a length; the headers of the answer do not matter).
\<close>

fun params_at ::
  "(string \<Rightarrow> json option) \<Rightarrow> (nat \<Rightarrow> string) \<Rightarrow> (string \<times> json) list \<Rightarrow> nat \<Rightarrow> (string \<times> json) list" where
  "params_at loads body p0 0 = p0"
| "params_at loads body p0 (Suc j) =
     AList.update ''cursor'' (snd (parse_page loads (body j))) (params_at loads body p0 j)"

definition items_len :: "(string \<Rightarrow> json option) \<Rightarrow> string \<Rightarrow> nat" where
  "items_len loads txt = (case py_len (fst (parse_page loads txt)) of Some l \<Rightarrow> l | None \<Rightarrow> 0)"

definition fetched_upto :: "(string \<Rightarrow> json option) \<Rightarrow> (nat \<Rightarrow> string) \<Rightarrow> nat \<Rightarrow> nat" where
  "fetched_upto loads body j = sum_list (map (\<lambda>i. items_len loads (body i)) [0..<j])"

definition page_stops :: "(string \<Rightarrow> json option) \<Rightarrow> (nat \<Rightarrow> string) \<Rightarrow> int \<Rightarrow> nat \<Rightarrow> bool" where
  "page_stops loads body limit j =
     (items_len loads (body j) = 0
      \<or> limit \<le> int (fetched_upto loads body (Suc j))
      \<or> \<not> json_truthy (snd (parse_page loads (body j))))"

definition page_fetched ::
  "network \<Rightarrow> (string \<Rightarrow> json option) \<Rightarrow> (nat \<Rightarrow> string) \<Rightarrow> string \<Rightarrow> (string \<times> string) list \<Rightarrow>
   (string \<times> json) list \<Rightarrow> nat \<Rightarrow> nat \<Rightarrow> bool" where
  "page_fetched net loads body u headers p0 k0 j =
     ((case net (k0 + j) \<lparr>rq_url = u, rq_params = params_at loads body p0 j, rq_headers = headers\<rparr> of
         Response status txt ra \<Rightarrow> status = 200 \<and> txt = body j
       | Failed e \<Rightarrow> False)
      \<and> body j \<noteq> [] \<and> py_len (fst (parse_page loads (body j))) \<noteq> None)"

definition sample_spec :: call_spec where
  "sample_spec =
     \<lparr>sp_url = CROSSREF_API, sp_params = [(''query'', JStr ''deep learning'')],
      sp_headers = [(''User-Agent'', user_agent ''a@b.c'')],
      sp_paginate = Some \<lparr>pg_strategy = Some ''crossref'', pg_limit = Some 1000,
        pg_rows = Some 100, pg_page_size = None, pg_max_pages = Some 50\<rparr>\<rparr>"

definition sample_loads :: "string \<Rightarrow> json option" where
  \<comment> \<open>\<open>json.loads\<close> on the three page bodies of the examples, named by short strings.\<close>
  "sample_loads txt =
     (if txt = ''page1'' then
        Some (JObj [(''message'', JObj [(''items'', JArr [JStr ''a'', JStr ''b'']), (''next-cursor'', JStr ''c2'')])])
      else if txt = ''page2'' then
        Some (JObj [(''message'', JObj [(''items'', JArr [JStr ''c'']), (''next-cursor'', JStr ''c3'')])])
      else if txt = ''page3'' then
        Some (JObj [(''message'', JObj [(''items'', JArr [JStr ''d'']), (''next-cursor'', JNull)])])
      else None)"

definition cursor_server :: network where
  \<comment> \<open>A server that answers by the cursor of the request; page 3 has a null next-cursor.\<close>
  "cursor_server k rq =
     (case map_of (rq_params rq) ''cursor'' of
        Some (JStr c) \<Rightarrow>
          if c = ''*'' then Response 200 ''page1'' None
          else if c = ''c2'' then Response 200 ''page2'' None
          else if c = ''c3'' then Response 200 ''page3'' None
          else Response 404 [] None
      | _ \<Rightarrow> Response 400 [] None)"

definition three_pages :: "nat \<Rightarrow> string" where
  "three_pages j = (if j = 0 then ''page1'' else if j = 1 then ''page2'' else ''page3'')"


definition year_kept :: "int option \<Rightarrow> int option \<Rightarrow> Record list \<Rightarrow> Record list" where
  \<comment> \<open>The records that pass the year filter, in their order.\<close>
  "year_kept from_year to_year records =
     filter (\<lambda>r. year_ok from_year to_year (published r) = Inr True) records"

definition sample_float :: "string \<Rightarrow> pyfloat option" where
  \<comment> \<open>\<open>float\<close> on the header values of the examples.\<close>
  "sample_float ra =
     (if ra = ''nan'' then Some NaN
      else if ra = ''inf'' then Some TooLarge
      else if ra = ''2'' then Some Sleepable
      else None)"

definition three_records :: "Record list" where
  \<comment> \<open>Three extracted records: the first and the third share a DOI, and the first is
      dated before 2020.\<close>
  "three_records =
     [rec0 ''arxiv'' (Some ''10.1/k1'') None ''A'' (Some ''2019-05-01''),
      rec0 ''crossref'' (Some ''10.1/k2'') None ''C'' (Some ''2020-03-01''),
      rec0 ''doaj'' (Some ''10.1/k1'') None ''B'' (Some ''2021'')]"

definition item_cap :: "call_spec \<Rightarrow> int" where
  \<comment> \<open>\<open>limit\<close>: the requested cap on the number of items.\<close>
  "item_cap spec = get_or (case sp_paginate spec of None \<Rightarrow> None | Some c \<Rightarrow> pg_limit c) 200"

definition page_cap :: "call_spec \<Rightarrow> nat" where
  \<comment> \<open>\<open>max_pages\<close>: the safety cap on the number of pages.\<close>
  "page_cap spec = nat (get_or (case sp_paginate spec of None \<Rightarrow> None | Some c \<Rightarrow> pg_max_pages c) 100)"

definition request_headers :: "call_spec \<Rightarrow> string \<Rightarrow> (string \<times> string) list" where
  "request_headers spec contact_email = dict_update (default_headers contact_email) (sp_headers spec)"

section \<open>Properties\<close>

subsection \<open>Strings and the DOI prefix\<close>

lemma py_lower_char_idem: "py_lower_char (py_lower_char c) = py_lower_char c"
  by (auto simp: py_lower_char_def Let_def)

lemma py_lower_idem: "py_lower (py_lower s) = py_lower s"
  by (simp add: py_lower_def py_lower_char_idem)

lemma py_isspace_lower_char: "py_isspace (py_lower_char c) = py_isspace c"
  by (auto simp: py_lower_char_def py_isspace_def Let_def)

lemma py_rstrip_id: "s \<noteq> [] \<Longrightarrow> \<not> py_isspace (last s) \<Longrightarrow> py_rstrip s = s"
  by (cases s rule: rev_cases) (auto simp: py_rstrip_def)

lemma py_lstrip_id: "s \<noteq> [] \<Longrightarrow> \<not> py_isspace (hd s) \<Longrightarrow> py_lstrip s = s"
  by (cases s) (auto simp: py_lstrip_def)

lemma py_strip_id: "s \<noteq> [] \<Longrightarrow> \<not> py_isspace (hd s) \<Longrightarrow> \<not> py_isspace (last s) \<Longrightarrow> py_strip s = s"
  by (simp add: py_strip_def py_lstrip_id py_rstrip_id)

lemma py_rstrip_last: "py_rstrip s \<noteq> [] \<Longrightarrow> \<not> py_isspace (last (py_rstrip s))"
  unfolding py_rstrip_def
  by (metis (no_types, lifting) hd_dropWhile last_rev rev_is_Nil_conv)

lemma py_strip_last: "py_strip s \<noteq> [] \<Longrightarrow> \<not> py_isspace (last (py_strip s))"
  unfolding py_strip_def by (rule py_rstrip_last)

lemma imatch_lit_suffix: "imatch_lit p s = Some r \<Longrightarrow> \<exists>pre. s = pre @ r \<and> length pre = length p"
proof (induction p s rule: imatch_lit.induct)
  case (3 p ps c cs)
  then show ?case
    by (auto split: if_splits intro: exI [of _ "c # _"])
qed auto

lemma imatch_lit_length: "imatch_lit p s = Some r \<Longrightarrow> length s = length p + length r"
  using imatch_lit_suffix by fastforce

lemma imatch_lit_suffix': "imatch_lit p s = Some r \<Longrightarrow> suffix r s"
  using imatch_lit_suffix by (fastforce simp: suffix_def)

lemma opt_then_suffix:
  assumes "\<And>s r. a s = Some r \<Longrightarrow> suffix r s" and "\<And>s r. b s = Some r \<Longrightarrow> suffix r s"
    and "opt_then a b s = Some r"
  shows "suffix r s"
proof (cases "a s")
  case None
  with assms(3) have "b s = Some r" by (simp add: opt_then_def)
  then show ?thesis by (rule assms(2))
next
  case (Some t)
  show ?thesis
  proof (cases "b t")
    case None
    with Some assms(3) have "b s = Some r" by (simp add: opt_then_def)
    then show ?thesis by (rule assms(2))
  next
    case (Some u)
    with \<open>a s = Some t\<close> assms(3) have "u = r" by (simp add: opt_then_def)
    with Some have "suffix r t" using assms(2) by simp
    moreover have "suffix t s" using \<open>a s = Some t\<close> by (rule assms(1))
    ultimately show ?thesis by (rule suffix_order.trans)
  qed
qed

lemma doi_prefix_suffix:
  assumes "doi_prefix s = Some r"
  shows "suffix r s \<and> length r < length s"
proof -
  from assms obtain r1 where r1: "imatch_lit ''http'' s = Some r1"
    and rest: "opt_then (imatch_lit ''s'')
            (\<lambda>r2. case imatch_lit ''://'' r2 of
                     None \<Rightarrow> None
                   | Some r3 \<Rightarrow> opt_then (imatch_lit ''dx.'') (imatch_lit ''doi.org/'') r3) r1 = Some r"
    by (auto simp: doi_prefix_def split: option.splits)
  have inner: "suffix v u" if "opt_then (imatch_lit ''dx.'') (imatch_lit ''doi.org/'') u = Some v" for u v
    using that by (rule opt_then_suffix [rotated 2]) (auto dest: imatch_lit_suffix')
  have "suffix r r1"
  proof (rule opt_then_suffix [OF _ _ rest])
    show "suffix v u" if "imatch_lit ''s'' u = Some v" for u v using that by (rule imatch_lit_suffix')
    show "suffix v u" if "(case imatch_lit ''://'' u of None \<Rightarrow> None
        | Some r3 \<Rightarrow> opt_then (imatch_lit ''dx.'') (imatch_lit ''doi.org/'') r3) = Some v" for u v
      using that by (auto split: option.splits dest!: inner imatch_lit_suffix' intro: suffix_order.trans)
  qed
  moreover have "suffix r1 s" and "length s = 4 + length r1"
    using r1 imatch_lit_suffix' imatch_lit_length by fastforce+
  ultimately show ?thesis
    by (metis suffix_order.trans suffix_length_le less_add_same_cancel2 zero_less_numeral le_less_trans)
qed

lemma re_sub_suffix: "suffix (re_sub_doi_prefix s) s"
  by (auto simp: re_sub_doi_prefix_def split: option.splits dest: doi_prefix_suffix)

lemma re_sub_length: "length (re_sub_doi_prefix s) \<le> length s"
  using re_sub_suffix suffix_length_le by blast

lemma re_sub_length_eq: "length (re_sub_doi_prefix s) = length s \<Longrightarrow> doi_prefix s = None"
  by (auto simp: re_sub_doi_prefix_def split: option.splits dest: doi_prefix_suffix)

lemma py_lstrip_length: "length (py_lstrip s) \<le> length s"
  by (simp add: py_lstrip_def length_dropWhile_le)

lemma py_rstrip_length: "length (py_rstrip s) \<le> length s"
  by (metis py_rstrip_def length_dropWhile_le length_rev)

lemma dropWhile_length_eq: "length (dropWhile P s) = length s \<Longrightarrow> dropWhile P s = s"
  by (metis append_eq_conv_conj append_self_conv2 length_0_conv takeWhile_dropWhile_id length_append add_cancel_left_left)

lemma py_strip_length: "length (py_strip s) \<le> length s"
  unfolding py_strip_def using py_lstrip_length py_rstrip_length le_trans by blast

lemma py_strip_length_eq: assumes "length (py_strip s) = length s" shows "py_strip s = s"
proof -
  have a: "length (py_lstrip s) = length s"
    using assms py_lstrip_length [of s] py_rstrip_length [of "py_lstrip s"] by (simp add: py_strip_def)
  then have b: "py_lstrip s = s" by (simp add: py_lstrip_def dropWhile_length_eq)
  with assms have "length (dropWhile py_isspace (rev s)) = length (rev s)"
    by (simp add: py_strip_def py_rstrip_def)
  then have "dropWhile py_isspace (rev s) = rev s" by (rule dropWhile_length_eq)
  with b show ?thesis by (simp add: py_strip_def py_rstrip_def)
qed

lemma py_strip_fixed_hd: "py_strip s = s \<Longrightarrow> s \<noteq> [] \<Longrightarrow> \<not> py_isspace (hd s)"
proof -
  assume a: "py_strip s = s" and b: "s \<noteq> []"
  have "length (py_lstrip s) = length s"
    using a py_lstrip_length [of s] py_rstrip_length [of "py_lstrip s"] by (simp add: py_strip_def)
  then have "dropWhile py_isspace s = s" by (simp add: py_lstrip_def dropWhile_length_eq)
  with b show ?thesis by (metis hd_dropWhile)
qed

lemma normalise_doi_fixed:
  assumes "normalise_doi x = Some y"
  shows "normalise_doi (Some y) = Some y \<longleftrightarrow> y \<noteq> [] \<and> \<not> py_isspace (hd y) \<and> doi_prefix y = None"
proof
  assume fx: "normalise_doi (Some y) = Some y"
  then have ne: "y \<noteq> []" by (auto simp: normalise_doi_def)
  with fx have eq: "py_lower (re_sub_doi_prefix (py_strip y)) = y" by (simp add: normalise_doi_def)
  then have "length (re_sub_doi_prefix (py_strip y)) = length y"
    by (metis py_lower_def length_map)
  with re_sub_length [of "py_strip y"] py_strip_length [of y]
  have l1: "length (py_strip y) = length y" and l2: "length (re_sub_doi_prefix (py_strip y)) = length (py_strip y)"
    by simp_all
  from l1 have st: "py_strip y = y" by (rule py_strip_length_eq)
  from l2 st have "doi_prefix y = None" by (simp add: re_sub_length_eq)
  with ne st show "y \<noteq> [] \<and> \<not> py_isspace (hd y) \<and> doi_prefix y = None"
    by (simp add: py_strip_fixed_hd)
next
  assume h: "y \<noteq> [] \<and> \<not> py_isspace (hd y) \<and> doi_prefix y = None"
  from assms obtain d where d: "x = Some d" "d \<noteq> []" and y: "y = py_lower (re_sub_doi_prefix (py_strip d))"
    by (auto simp: normalise_doi_def split: option.splits if_splits)
  define z where "z = re_sub_doi_prefix (py_strip d)"
  have zne: "z \<noteq> []" using h y by (auto simp: z_def py_lower_def)
  have "suffix z (py_strip d)" unfolding z_def by (rule re_sub_suffix)
  then obtain pre where pre: "py_strip d = pre @ z" by (auto simp: suffix_def)
  with zne have "last z = last (py_strip d)" and "py_strip d \<noteq> []" by auto
  then have "\<not> py_isspace (last z)" using py_strip_last by metis
  moreover have "last y = py_lower_char (last z)" using zne y by (simp add: z_def py_lower_def last_map)
  ultimately have "\<not> py_isspace (last y)" by (simp add: py_isspace_lower_char)
  with h have "py_strip y = y" by (simp add: py_strip_id)
  moreover have "re_sub_doi_prefix y = y" using h by (simp add: re_sub_doi_prefix_def)
  moreover have "py_lower y = y" using y by (simp add: py_lower_idem)
  ultimately show "normalise_doi (Some y) = Some y" using h by (simp add: normalise_doi_def)
qed

subsection \<open>DOI normalisation\<close>

text \<open>
  Claim C6, as amended. \<open>normalise_doi\<close> removes one leading doi.org prefix and strips
  white space before it does, so applying it twice gives the same as applying it once
  exactly when the first result is null, or is non-empty and starts neither with white
  space nor with a further doi.org prefix. \<open>normalise_doi("https://doi.org/10.1/X")\<close> is
  \<open>"10.1/x"\<close>.
\<close>

theorem normalise_doi_idempotent_amended:
  "(normalise_doi (normalise_doi x) = normalise_doi x \<longleftrightarrow>
      (\<forall>y. normalise_doi x = Some y \<longrightarrow> y \<noteq> [] \<and> \<not> py_isspace (hd y) \<and> doi_prefix y = None))
   \<and> normalise_doi (Some ''https://doi.org/10.1/X'') = Some ''10.1/x''"
proof -
  have ex: "normalise_doi (Some ''https://doi.org/10.1/X'') = Some ''10.1/x''" by code_simp
  have "normalise_doi (normalise_doi x) = normalise_doi x \<longleftrightarrow>
      (\<forall>y. normalise_doi x = Some y \<longrightarrow> y \<noteq> [] \<and> \<not> py_isspace (hd y) \<and> doi_prefix y = None)"
  proof (cases "normalise_doi x")
    case None
    then show ?thesis by (simp add: normalise_doi_def)
  next
    case (Some y)
    then show ?thesis using normalise_doi_fixed [OF Some] by simp
  qed
  with ex show ?thesis by simp
qed

theorem normalise_doi_idempotent_counterexample:
  "normalise_doi (normalise_doi (Some ''https://doi.org/https://doi.org/10.1/X''))
     \<noteq> normalise_doi (Some ''https://doi.org/https://doi.org/10.1/X'')"
  by code_simp

theorem normalise_doi_idempotent_amended_witness:
  "normalise_doi (normalise_doi (Some ''https://doi.org/10.1/X'')) = normalise_doi (Some ''https://doi.org/10.1/X'')
   \<and> normalise_doi (Some ''https://doi.org/10.1/X'') = Some ''10.1/x''
   \<and> ''10.1/x'' \<noteq> [] \<and> \<not> py_isspace (hd ''10.1/x'') \<and> doi_prefix ''10.1/x'' = None"
proof -
  have a: "normalise_doi (Some ''https://doi.org/10.1/X'') = Some ''10.1/x''" by code_simp
  have b: "\<not> py_isspace (hd ''10.1/x'')" by code_simp
  have c: "doi_prefix ''10.1/x'' = None" by code_simp
  from normalise_doi_idempotent_amended [of "Some ''https://doi.org/10.1/X''"] a b c
  show ?thesis by simp
qed


subsection \<open>The counts of the manifest\<close>

lemma year_filter_idem:
  "year_filter from_year to_year rs = Inr rs' \<Longrightarrow> year_filter from_year to_year rs' = Inr rs'"
proof (induction rs arbitrary: rs')
  case Nil
  then show ?case by simp
next
  case (Cons r rs)
  from Cons.prems obtain keep rs1 where k: "year_ok from_year to_year (published r) = Inr keep"
    and r1: "year_filter from_year to_year rs = Inr rs1"
    and eq: "rs' = (if keep then r # rs1 else rs1)"
    by (auto split: sum.splits)
  from Cons.IH [OF r1] have "year_filter from_year to_year rs1 = Inr rs1" .
  with k eq show ?case by (cases keep) simp_all
qed

lemma counts_fetched_eq_filtered:
  assumes "run_from_extracted root query run_dir from_year to_year extracted = Inr res"
  shows "fetched (manifest_counts res) = filtered (manifest_counts res)"
proof -
  from assms obtain records where f: "year_filter from_year to_year extracted = Inr records"
    by (auto simp: run_from_extracted_def split: sum.splits)
  then have "year_filter from_year to_year records = Inr records" by (rule year_filter_idem)
  with f assms show ?thesis by (auto simp: run_from_extracted_def Let_def)
qed

text \<open>
  Claim C2. The run computes \<open>extracted_count\<close> from \<open>records\<close> after the year filter has
  replaced it, so on ten extracted records of which the filter excludes two and one of
  the remaining eight is a duplicate, the counts of the manifest are
  \<open>{fetched: 8, filtered: 8, deduped: 7}\<close>: \<open>fetched\<close> is the count after the filter, not
  the count of the extracted records, 10.
\<close>

theorem counts_fetched_is_post_filter:
  "length ten_records = 10
   \<and> map_sum id manifest_counts
       (run_from_extracted None ''q'' ''run_20250101_000000'' (Some 2020) (Some 2021) ten_records)
     = Inr \<lparr>fetched = 8, filtered = 8, deduped = 7\<rparr>"
  by code_simp

subsection \<open>The year filter\<close>

lemma year_ok_examples:
  "year_ok (Some 2020) (Some 2021) (Some ''2020-01-02'') = Inr True"
  "year_ok (Some 2020) (Some 2021) (Some ''2019-12-31'') = Inr False"
  "year_ok (Some 2020) (Some 2021) (Some ''2022-01-01'') = Inr False"
  by code_simp+

lemma year_ok_no_bound: "year_ok None None p = Inr True"
  by (simp add: year_ok_def int_truthy_def)

lemma year_ok_undated:
  "int_truthy from_year \<or> int_truthy to_year \<Longrightarrow> \<not> truthy p \<Longrightarrow> year_ok from_year to_year p = Inr False"
  by (simp add: year_ok_def)

text \<open>
  Claim C4. The test for "no bound is given" is \<open>not (from_year or to_year)\<close>, which is
  also true of a bound that is 0: with \<open>to_year = 0\<close> and no \<open>from_year\<close> a record dated
  2020-01-02 passes, though 2020 lies above the bound, and with \<open>from_year = 0\<close> a record
  without a date passes.
\<close>

theorem year_ok_bound_zero_passes_all:
  "year_ok None (Some 0) (Some ''2020-01-02'') = Inr True \<and> year_ok (Some 0) None None = Inr True"
  by code_simp

theorem year_ok_bound_zero_passes_all_witness:
  "year_ok None (Some 0) (Some ''2020-01-02'') = Inr True"
  using year_ok_bound_zero_passes_all by simp

subsection \<open>The planner\<close>

text \<open>
  Claim C7. \<open>plan\<close> computes \<open>page_size = min(per_source_limit, 100)\<close> and does not use it:
  with \<open>per_source_limit = 10\<close> and every source enabled, the page size of each call spec
  (\<open>rows\<close> for Crossref, \<open>page_size\<close> for arXiv and DOAJ) is 100, not 10.
\<close>

theorem plan_page_size_is_100:
  "map_sum id (map (\<lambda>t. (fst t, spec_page_size (snd t))))
     (plan quote contact_email query 10 Map.empty from_year to_year)
   = Inr [(''crossref'', Some 100), (''arxiv'', Some 100), (''doaj'', Some 100)]"
  by (simp add: plan_def spec_page_size_def enabled_def get_or_def Let_def)

subsection \<open>Deduplication\<close>

lemma dedup_key_nonempty: "dedup_key r = Some k \<Longrightarrow> k \<noteq> []"
  by (auto simp: dedup_key_def truthy_def split: if_splits option.splits)

lemma dedup_key_truthy: "truthy (dedup_key r) \<longleftrightarrow> dedup_key r \<noteq> None"
  by (cases "dedup_key r") (auto simp: truthy_def dest: dedup_key_nonempty)

lemma update_fresh: "map_of d k = None \<Longrightarrow> AList.update k v d = d @ [(k, v)]"
  by (induction d) (auto split: if_splits)

lemma set_distinct_first: "set (distinct_first xs) = set xs"
  by (induction xs rule: distinct_first.induct) auto

lemma distinct_distinct_first: "distinct (distinct_first xs)"
  by (induction xs rule: distinct_first.induct) (auto simp: set_distinct_first)

lemma distinct_first_filter: "distinct_first (filter P xs) = filter P (distinct_first xs)"
proof (induction xs rule: distinct_first.induct)
  case 1
  then show ?case by simp
next
  case (2 x xs)
  have c: "filter (\<lambda>y. y \<noteq> x) (filter P xs) = filter P (filter (\<lambda>y. y \<noteq> x) xs)"
    by (simp add: conj_commute)
  show ?case
  proof (cases "P x")
    case True
    with 2 c show ?thesis by simp
  next
    case False
    then have "filter P (filter (\<lambda>y. y \<noteq> x) xs) = filter P xs"
      by (auto intro: filter_cong)
    with False 2 show ?thesis by simp
  qed
qed

lemma first_with_key_Cons_other:
  "dedup_key r \<noteq> Some k \<Longrightarrow> first_with_key (r # rs) k = first_with_key rs k"
  by (simp add: first_with_key_def)

lemma first_with_key_Cons_same:
  "dedup_key r = Some k \<Longrightarrow> first_with_key (r # rs) k = Some r"
  by (simp add: first_with_key_def)

lemma map_filter_Cons_None: "f x = None \<Longrightarrow> List.map_filter f (x # xs) = List.map_filter f xs"
  by (simp add: List.map_filter_def)

lemma map_filter_Cons_Some: "f x = Some y \<Longrightarrow> List.map_filter f (x # xs) = y # List.map_filter f xs"
  by (simp add: List.map_filter_def)

lemma map_of_snoc_None: "map_of (d @ [(k, v)]) k' = None \<longleftrightarrow> map_of d k' = None \<and> k' \<noteq> k"
  by (auto simp: map_add_def split: option.splits)

lemma map_first_with_key_skip:
  "k \<notin> set ks \<Longrightarrow> dedup_key r = Some k \<Longrightarrow>
   map (\<lambda>k'. (k', the (first_with_key (r # rs) k'))) ks = map (\<lambda>k'. (k', the (first_with_key rs k'))) ks"
  by (induction ks) (auto simp: first_with_key_def)

lemma dedup_loop_eq:
  "dedup_loop rs d =
     d @ map (\<lambda>k. (k, the (first_with_key rs k)))
           (distinct_first (filter (\<lambda>k. map_of d k = None) (List.map_filter dedup_key rs)))"
proof (induction rs arbitrary: d)
  case Nil
  then show ?case by (simp add: List.map_filter_def)
next
  case (Cons r rs)
  show ?case
  proof (cases "dedup_key r")
    case None
    have "map (\<lambda>k. (k, the (first_with_key (r # rs) k))) ks = map (\<lambda>k. (k, the (first_with_key rs k))) ks" for ks
      using None by (simp add: first_with_key_Cons_other)
    with None Cons show ?thesis by (simp add: map_filter_Cons_None truthy_def)
  next
    case (Some k)
    then have t: "truthy (Some k)" using dedup_key_nonempty [of r k] by (simp add: truthy_def)
    show ?thesis
    proof (cases "map_of d k")
      case None
      let ?ks = "distinct_first (filter (\<lambda>y. y \<noteq> k) (filter (\<lambda>k. map_of d k = None) (List.map_filter dedup_key rs)))"
      have step: "dedup_loop (r # rs) d = dedup_loop rs (d @ [(k, r)])"
        using Some None t by (simp add: or_empty_def update_fresh)
      have f: "filter (\<lambda>k'. map_of (d @ [(k, r)]) k' = None) ks = filter (\<lambda>y. y \<noteq> k) (filter (\<lambda>k. map_of d k = None) ks)" for ks
        by (induction ks) (auto simp: map_add_def split: option.splits)
      have "k \<notin> set ?ks" by (simp add: set_distinct_first)
      then have m: "map (\<lambda>k'. (k', the (first_with_key (r # rs) k'))) ?ks = map (\<lambda>k'. (k', the (first_with_key rs k'))) ?ks"
        using Some by (rule map_first_with_key_skip)
      show ?thesis
        unfolding step Cons.IH f
        using Some None m by (simp add: map_filter_Cons_Some first_with_key_Cons_same)
    next
      case (Some v)
      let ?ks = "distinct_first (filter (\<lambda>k. map_of d k = None) (List.map_filter dedup_key rs))"
      have step: "dedup_loop (r # rs) d = dedup_loop rs d"
        using Some \<open>dedup_key r = Some k\<close> by (simp add: or_empty_def)
      have "k \<notin> set ?ks" using Some by (simp add: set_distinct_first)
      then have m: "map (\<lambda>k'. (k', the (first_with_key (r # rs) k'))) ?ks = map (\<lambda>k'. (k', the (first_with_key rs k'))) ?ks"
        using \<open>dedup_key r = Some k\<close> by (rule map_first_with_key_skip)
      show ?thesis
        unfolding step Cons.IH
        using Some \<open>dedup_key r = Some k\<close> m by (simp add: map_filter_Cons_Some)
    qed
  qed
qed

lemma deduplicate_eq:
  "deduplicate rs = map (\<lambda>k. the (first_with_key rs k)) (first_keys rs)"
  by (simp add: deduplicate_def dedup_loop_eq first_keys_def comp_def)

lemma first_with_key_Some:
  "k \<in> set (first_keys rs) \<Longrightarrow> \<exists>r. first_with_key rs k = Some r \<and> r \<in> set rs \<and> dedup_key r = Some k"
proof -
  assume "k \<in> set (first_keys rs)"
  then obtain r where "r \<in> set rs" "dedup_key r = Some k"
    by (auto simp: first_keys_def set_distinct_first List.map_filter_def)
  then obtain r' where "find (\<lambda>r. dedup_key r = Some k) rs = Some r'"
    by (cases "find (\<lambda>r. dedup_key r = Some k) rs") (auto simp: find_None_iff)
  then show ?thesis
    by (auto simp: first_with_key_def find_Some_iff)
qed

lemma first_with_key_in_keys:
  "first_with_key rs k = Some r \<Longrightarrow> k \<in> set (first_keys rs) \<and> dedup_key r = Some k \<and> r \<in> set rs"
  by (force simp: first_with_key_def find_Some_iff first_keys_def set_distinct_first List.map_filter_def)

lemma filter_eq_distinct: "distinct ks \<Longrightarrow> k \<in> set ks \<Longrightarrow> filter (\<lambda>x. x = k) ks = [k]"
  by (induction ks) (auto simp: filter_empty_conv)

lemma dedup_key_of_first:
  "k \<in> set (first_keys rs) \<Longrightarrow> dedup_key (the (first_with_key rs k)) = Some k"
  using first_with_key_Some by fastforce

lemma filter_deduplicate:
  assumes "first_with_key rs k = Some r"
  shows "filter (\<lambda>x. dedup_key x = Some k) (deduplicate rs) = [r]"
proof -
  from assms have k: "k \<in> set (first_keys rs)" by (simp add: first_with_key_in_keys)
  have d: "distinct (first_keys rs)" by (simp add: first_keys_def distinct_distinct_first)
  have "filter (\<lambda>k'. dedup_key (the (first_with_key rs k')) = Some k) (first_keys rs)
        = filter (\<lambda>k'. k' = k) (first_keys rs)"
    by (rule filter_cong) (auto simp: dedup_key_of_first)
  with k d assms show ?thesis
    by (simp add: deduplicate_eq filter_map comp_def filter_eq_distinct)
qed

lemma deduplicate_keys: "map dedup_key (deduplicate rs) = map Some (first_keys rs)"
  by (simp add: deduplicate_eq dedup_key_of_first)

text \<open>
  Claim C3. The deduplication goes through the records in their order with the key
  \<open>doi\<close> if present, else \<open>arxiv:{id}\<close> if present, else null. Every record it keeps is
  one of the input and has a key; no two kept records share a key; for every key that
  some record carries, the kept records with that key are exactly the first record of
  the input that carries it, so of two records with one key and different titles the
  first survives alone; a record whose key is null is never kept.
\<close>

theorem dedup_first_seen_wins:
  "(\<forall>r \<in> set (deduplicate rs). r \<in> set rs \<and> dedup_key r \<noteq> None)
   \<and> distinct (map dedup_key (deduplicate rs))
   \<and> (\<forall>k r. first_with_key rs k = Some r \<longrightarrow>
          filter (\<lambda>x. dedup_key x = Some k) (deduplicate rs) = [r])
   \<and> (dedup_key a = Some k \<and> dedup_key b = Some k \<longrightarrow> deduplicate [a, b] = [a])
   \<and> dedup_key r =
       (if truthy (doi r) then doi r
        else if truthy (arxiv_id r) then Some (''arxiv:'' @ the (arxiv_id r)) else None)"
proof (intro conjI)
  show "\<forall>r \<in> set (deduplicate rs). r \<in> set rs \<and> dedup_key r \<noteq> None"
    using first_with_key_Some by (fastforce simp: deduplicate_eq)
  show "distinct (map dedup_key (deduplicate rs))"
    by (simp add: deduplicate_keys distinct_map first_keys_def distinct_distinct_first)
  show "\<forall>k r. first_with_key rs k = Some r \<longrightarrow>
          filter (\<lambda>x. dedup_key x = Some k) (deduplicate rs) = [r]"
    by (simp add: filter_deduplicate)
  show "dedup_key a = Some k \<and> dedup_key b = Some k \<longrightarrow> deduplicate [a, b] = [a]"
    by (auto simp: deduplicate_eq first_keys_def List.map_filter_def first_with_key_def)
  show "dedup_key r =
       (if truthy (doi r) then doi r
        else if truthy (arxiv_id r) then Some (''arxiv:'' @ the (arxiv_id r)) else None)"
    by (auto simp: dedup_key_def or_empty_def truthy_def split: option.splits)
qed

theorem dedup_first_seen_wins_witness:
  "first_with_key two_titles ''10.1/a'' = Some (two_titles ! 0)
   \<and> filter (\<lambda>x. dedup_key x = Some ''10.1/a'') (deduplicate two_titles) = [two_titles ! 0]
   \<and> title (two_titles ! 0) = Some ''First title''
   \<and> dedup_key (two_titles ! 1) = None \<and> two_titles ! 1 \<notin> set (deduplicate two_titles)"
proof -
  have a: "first_with_key two_titles ''10.1/a'' = Some (two_titles ! 0)" by code_simp
  have b: "title (two_titles ! 0) = Some ''First title''" by code_simp
  have c: "dedup_key (two_titles ! 1) = None" by code_simp
  from dedup_first_seen_wins [of two_titles] a
  have d: "filter (\<lambda>x. dedup_key x = Some ''10.1/a'') (deduplicate two_titles) = [two_titles ! 0]"
    by blast
  from dedup_first_seen_wins [of two_titles] c
  have e: "two_titles ! 1 \<notin> set (deduplicate two_titles)" by blast
  from a b c d e show ?thesis by simp
qed

lemma extend_chunks_eq:
  "extend_chunks parse cs out = Inr res \<Longrightarrow> res = out @ records_of parse cs"
proof (induction cs arbitrary: out)
  case Nil
  then show ?case by (simp add: records_of_def)
next
  case (Cons c cs)
  from Cons.prems obtain rs where p: "parse c = Inr rs" and e: "extend_chunks parse cs (out @ rs) = Inr res"
    by (auto split: sum.splits)
  from Cons.IH [OF e] p show ?case by (simp add: records_of_def)
qed

lemma process_eq:
  assumes "process from_arxiv from_crossref from_doaj raw_blobs = Inr out"
  shows "out = records_of from_arxiv (chunks_of raw_blobs ''arxiv'')
             @ records_of from_crossref (chunks_of raw_blobs ''crossref'')
             @ records_of from_doaj (chunks_of raw_blobs ''doaj'')"
  using assms unfolding process_def chunks_of_def
  by (auto split: sum.splits if_splits dest!: extend_chunks_eq simp: records_of_def)

lemma year_filter_eq:
  "year_filter from_year to_year rs = Inr rs' \<Longrightarrow>
   rs' = filter (\<lambda>r. year_ok from_year to_year (published r) = Inr True) rs"
  by (induction rs arbitrary: rs') (auto split: sum.splits)

lemma run_final:
  assumes "run_from_extracted root query run_dir from_year to_year extracted = Inr res"
  shows "final res = deduplicate (year_kept from_year to_year extracted)"
  using assms
  by (auto simp: run_from_extracted_def year_kept_def Let_def split: sum.splits dest!: year_filter_eq)

lemma year_kept_no_bound: "year_kept None None extracted = extracted"
  by (simp add: year_kept_def year_ok_def int_truthy_def)

lemma deduplicate_nth:
  "i < length (first_keys rs) \<Longrightarrow> first_with_key rs (first_keys rs ! i) = Some (deduplicate rs ! i)"
  using first_with_key_Some [of "first_keys rs ! i" rs] by (auto simp: deduplicate_eq)

text \<open>
  Claim C10, as amended. The deduplicated list has one element for each distinct non-null
  key of the stream it is computed from, in the order in which the keys first appear,
  and its \<open>i\<close>-th element is the first record of that stream with the \<open>i\<close>-th such key.
  The stream that \<open>process\<close> returns is the arXiv records, then the Crossref records,
  then the DOAJ records, each source's chunks in the order of its raw-blob list. The
  run deduplicates the records of that stream that pass the year filter, in their
  order: the \<open>i\<close>-th element of its output is the first record that passes the filter
  with the \<open>i\<close>-th distinct non-null key among the records that pass. Without a year
  bound every record passes, and the order is that of the merged extraction stream.
\<close>

theorem dedup_order_amended:
  "length (deduplicate rs) = length (first_keys rs)
   \<and> (\<forall>i < length (first_keys rs). first_with_key rs (first_keys rs ! i) = Some (deduplicate rs ! i))
   \<and> (process from_arxiv from_crossref from_doaj raw_blobs = Inr out \<longrightarrow>
        out = records_of from_arxiv (chunks_of raw_blobs ''arxiv'')
              @ records_of from_crossref (chunks_of raw_blobs ''crossref'')
              @ records_of from_doaj (chunks_of raw_blobs ''doaj''))
   \<and> (run_from_extracted root query run_dir from_year to_year extracted = Inr res \<longrightarrow>
        length (final res) = length (first_keys (year_kept from_year to_year extracted))
        \<and> (\<forall>i < length (first_keys (year_kept from_year to_year extracted)).
              first_with_key (year_kept from_year to_year extracted)
                (first_keys (year_kept from_year to_year extracted) ! i) = Some (final res ! i)))
   \<and> (run_from_extracted root query run_dir None None extracted = Inr res' \<longrightarrow>
        length (final res') = length (first_keys extracted)
        \<and> (\<forall>i < length (first_keys extracted).
              first_with_key extracted (first_keys extracted ! i) = Some (final res' ! i)))"
proof (intro conjI allI impI)
  show "length (deduplicate rs) = length (first_keys rs)" by (simp add: deduplicate_eq)
  show "first_with_key rs (first_keys rs ! i) = Some (deduplicate rs ! i)" if "i < length (first_keys rs)" for i
    using that by (rule deduplicate_nth)
  show "out = records_of from_arxiv (chunks_of raw_blobs ''arxiv'')
              @ records_of from_crossref (chunks_of raw_blobs ''crossref'')
              @ records_of from_doaj (chunks_of raw_blobs ''doaj'')"
    if "process from_arxiv from_crossref from_doaj raw_blobs = Inr out"
    using that by (rule process_eq)
next
  assume r: "run_from_extracted root query run_dir from_year to_year extracted = Inr res"
  show "length (final res) = length (first_keys (year_kept from_year to_year extracted))"
    by (simp add: run_final [OF r] deduplicate_eq)
next
  fix i
  assume r: "run_from_extracted root query run_dir from_year to_year extracted = Inr res"
    and i: "i < length (first_keys (year_kept from_year to_year extracted))"
  show "first_with_key (year_kept from_year to_year extracted)
          (first_keys (year_kept from_year to_year extracted) ! i) = Some (final res ! i)"
    unfolding run_final [OF r] using i by (rule deduplicate_nth)
next
  assume r: "run_from_extracted root query run_dir None None extracted = Inr res'"
  show "length (final res') = length (first_keys extracted)"
    by (simp add: run_final [OF r] year_kept_no_bound deduplicate_eq)
next
  fix i
  assume r: "run_from_extracted root query run_dir None None extracted = Inr res'"
    and i: "i < length (first_keys extracted)"
  show "first_with_key extracted (first_keys extracted ! i) = Some (final res' ! i)"
    unfolding run_final [OF r] year_kept_no_bound using i by (rule deduplicate_nth)
qed

theorem dedup_order_counterexample:
  "map_sum id final (run_from_extracted None ''q'' ''run_1'' (Some 2020) None three_records)
     = Inr [three_records ! 1, three_records ! 2]
   \<and> first_with_key three_records (first_keys three_records ! 0) = Some (three_records ! 0)
   \<and> three_records ! 0 \<noteq> three_records ! 1"
  by code_simp

theorem dedup_order_amended_witness:
  "first_keys three_records = [''10.1/k1'', ''10.1/k2'']
   \<and> first_with_key three_records (first_keys three_records ! 1) = Some (deduplicate three_records ! 1)
   \<and> process (sample_parse ''arxiv'') (sample_parse ''crossref'') (sample_parse ''doaj'') sample_blobs
       = Inr [rec0 ''arxiv'' (Some ''10.1/b'') None ''10.1/b'' None,
              rec0 ''crossref'' (Some ''10.1/a'') None ''10.1/a'' None,
              rec0 ''crossref'' (Some ''10.1/b'') None ''10.1/b'' None,
              rec0 ''doaj'' (Some ''10.1/c'') None ''10.1/c'' None]
   \<and> first_keys (year_kept (Some 2020) None three_records) = [''10.1/k2'', ''10.1/k1'']
   \<and> first_with_key (year_kept (Some 2020) None three_records) ''10.1/k1''
       = Some (final (projr (run_from_extracted None ''q'' ''run_1'' (Some 2020) None three_records)) ! 1)
   \<and> map title (final (projr (run_from_extracted None ''q'' ''run_1'' (Some 2020) None three_records)))
       = [Some ''C'', Some ''B'']
   \<and> first_with_key three_records ''10.1/k1''
       = Some (final (projr (run_from_extracted None ''q'' ''run_1'' None None three_records)) ! 0)
   \<and> map title (final (projr (run_from_extracted None ''q'' ''run_1'' None None three_records)))
       = [Some ''A'', Some ''C'']"
proof -
  let ?out = "[rec0 ''arxiv'' (Some ''10.1/b'') None ''10.1/b'' None,
              rec0 ''crossref'' (Some ''10.1/a'') None ''10.1/a'' None,
              rec0 ''crossref'' (Some ''10.1/b'') None ''10.1/b'' None,
              rec0 ''doaj'' (Some ''10.1/c'') None ''10.1/c'' None]"
  let ?res = "projr (run_from_extracted None ''q'' ''run_1'' (Some 2020) None three_records)"
  let ?res' = "projr (run_from_extracted None ''q'' ''run_1'' None None three_records)"
  let ?kept = "year_kept (Some 2020) None three_records"
  have k: "first_keys three_records = [''10.1/k1'', ''10.1/k2'']" by code_simp
  have kk: "first_keys ?kept = [''10.1/k2'', ''10.1/k1'']" by code_simp
  have p: "process (sample_parse ''arxiv'') (sample_parse ''crossref'') (sample_parse ''doaj'') sample_blobs = Inr ?out"
    by code_simp
  have r: "run_from_extracted None ''q'' ''run_1'' (Some 2020) None three_records = Inr ?res"
    by code_simp
  have r': "run_from_extracted None ''q'' ''run_1'' None None three_records = Inr ?res'"
    by code_simp
  have t: "map title (final ?res) = [Some ''C'', Some ''B'']" by code_simp
  have t': "map title (final ?res') = [Some ''A'', Some ''C'']" by code_simp
  note main = dedup_order_amended [where rs = three_records and from_arxiv = "sample_parse ''arxiv''"
      and from_crossref = "sample_parse ''crossref''" and from_doaj = "sample_parse ''doaj''"
      and raw_blobs = sample_blobs and out = ?out and root = None and query = "''q''"
      and run_dir = "''run_1''" and from_year = "Some 2020" and to_year = None
      and extracted = three_records and res = ?res and res' = ?res']
  have l1: "1 < length (first_keys three_records)" using k by simp
  have l2: "1 < length (first_keys ?kept)" using kk by simp
  have l3: "0 < length (first_keys three_records)" using k by simp
  have n1: "first_keys ?kept ! 1 = ''10.1/k1''" using kk by simp
  have n2: "first_keys three_records ! 0 = ''10.1/k1''" using k by simp
  note a = main [THEN conjunct2, THEN conjunct1, rule_format, of 1, OF l1]
  note b0 = main [THEN conjunct2, THEN conjunct2, THEN conjunct2, THEN conjunct1, THEN mp, OF r,
      THEN conjunct2, rule_format, of 1, OF l2]
  note c0 = main [THEN conjunct2, THEN conjunct2, THEN conjunct2, THEN conjunct2, THEN mp, OF r',
      THEN conjunct2, rule_format, of 0, OF l3]
  from b0 n1 have b: "first_with_key ?kept ''10.1/k1'' = Some (final ?res ! 1)" by (simp only:)
  from c0 n2 have c: "first_with_key three_records ''10.1/k1'' = Some (final ?res' ! 0)" by (simp only:)
  from k a p kk b t c t' show ?thesis by (intro conjI)
qed

subsection \<open>The diff against the previous run\<close>

lemma primary_id_from_row_nonempty: "primary_id_from_row r = Some p \<Longrightarrow> p \<noteq> []"
  by (auto simp: primary_id_from_row_def Let_def split: if_splits)

lemma pid_nonempty: "pid r = Some p \<Longrightarrow> p \<noteq> []"
  by (auto simp: pid_def truthy_def primary_id_from_row_nonempty split: if_splits)

lemma prev_ids_eq: "prev_ids rows = prior_pids rows"
proof
  show "prev_ids rows \<subseteq> prior_pids rows"
    by (fastforce simp: prev_ids_def prior_pids_def truthy_def or_empty_def split: option.splits)
  show "prior_pids rows \<subseteq> prev_ids rows"
  proof
    fix p assume "p \<in> prior_pids rows"
    then obtain r where r: "r \<in> set rows" "pid r = Some p" by (auto simp: prior_pids_def)
    then have "truthy (pid r)" using pid_nonempty by (simp add: truthy_def)
    with r show "p \<in> prev_ids rows"
      by (force simp: prev_ids_def or_empty_def image_iff)
  qed
qed

lemma new_rows_eq:
  "new_rows cur_rows prev_rows =
     filter (\<lambda>r. \<forall>p. pid r = Some p \<longrightarrow> p \<notin> prior_pids prev_rows) cur_rows"
  unfolding new_rows_def prev_ids_eq
  by (rule filter_cong) (auto split: option.splits)

lemma find_previous_None:
  "root = None \<or> (\<exists>entries. root = Some entries \<and> (\<forall>d \<in> set entries. \<not> candidate query run_dir d))
   \<Longrightarrow> find_previous_run_dir root query run_dir = None"
  by (auto simp: find_previous_run_dir_def Let_def filter_empty_conv split: option.splits list.splits)

lemma sort_key_hd:
  assumes "sort_key f xs = c # cs"
  shows "c \<in> set xs \<and> (\<forall>x \<in> set xs. f c \<le> f x)"
proof -
  have "set (sort_key f xs) = set xs" by simp
  with assms have s: "set xs = insert c (set cs)" by simp
  have "sorted (map f (sort_key f xs))" by (rule sorted_sort_key)
  with assms have "\<forall>x \<in> set cs. f c \<le> f x" by simp
  with s show ?thesis by auto
qed

lemma find_previous_Some:
  assumes "find_previous_run_dir root query run_dir = Some prev"
  shows "\<exists>entries. root = Some entries \<and> prev \<in> set entries \<and> candidate query run_dir prev
           \<and> (\<forall>d \<in> set entries. candidate query run_dir d \<longrightarrow> e_mtime d \<le> e_mtime prev)"
proof -
  from assms obtain entries where root: "root = Some entries"
    by (auto simp: find_previous_run_dir_def split: option.splits)
  let ?c = "map (\<lambda>d. (e_mtime d, d)) (filter (candidate query run_dir) entries)"
  from assms root obtain c cs where s: "sort_key (\<lambda>x. - fst x) ?c = c # cs" and p: "prev = snd c"
    by (auto simp: find_previous_run_dir_def Let_def split: list.splits)
  from sort_key_hd [OF s] have c: "c \<in> set ?c" and m: "\<forall>x \<in> set ?c. - fst c \<le> - fst x" by auto
  from c p have "prev \<in> set entries" "candidate query run_dir prev" "fst c = e_mtime prev" by auto
  moreover have "e_mtime d \<le> fst c" if "d \<in> set entries" "candidate query run_dir d" for d
  proof -
    from that have "(e_mtime d, d) \<in> set ?c" by auto
    with m have "- fst c \<le> - fst (e_mtime d, d)" by blast
    then show ?thesis by simp
  qed
  ultimately show ?thesis using root by auto
qed

lemma find_previous_exists:
  assumes "root = Some entries" "d \<in> set entries" "candidate query run_dir d"
  shows "\<exists>prev. find_previous_run_dir root query run_dir = Some prev"
proof -
  let ?c = "map (\<lambda>d. (e_mtime d, d)) (filter (candidate query run_dir) entries)"
  from assms have "?c \<noteq> []" by (auto simp: filter_empty_conv)
  then have "sort_key (\<lambda>x. - fst x) ?c \<noteq> []"
    by (metis length_0_conv length_sort)
  with assms(1) show ?thesis
    by (auto simp: find_previous_run_dir_def Let_def split: list.splits)
qed

text \<open>
  Claim C5. When the run root has no earlier run directory with the same query, no diff
  is produced (and nothing is raised: the stage has no error outcome). Otherwise the
  directory that is compared with is one with the same query, other than the current
  one, and none with the same query is more recently modified; with its results.json
  read, the diff is exactly the current rows whose PrimaryID is not among the PrimaryIDs
  of its rows. So if run A persisted \<open>{x, y}\<close> and run B produced \<open>{x, y, z}\<close>, the diff
  of B against A is \<open>{z}\<close>. The run computes the diff of the rows it has just stored.
\<close>

theorem diff_is_new_primary_ids:
  "(root = None \<or> (\<exists>entries. root = Some entries \<and> (\<forall>d \<in> set entries. \<not> candidate query run_dir d))
      \<longrightarrow> diff_stage root query run_dir cur = None)
   \<and> (root = Some entries \<and> d \<in> set entries \<and> candidate query run_dir d
      \<longrightarrow> (\<exists>prev. find_previous_run_dir root query run_dir = Some prev \<and> prev \<in> set entries
             \<and> candidate query run_dir prev
             \<and> (\<forall>d' \<in> set entries. candidate query run_dir d' \<longrightarrow> e_mtime d' \<le> e_mtime prev)))
   \<and> (find_previous_run_dir root query run_dir = Some prev \<and> e_results prev = Results prev_rows
      \<longrightarrow> diff_stage root query run_dir (Results cur_rows)
            = Some (filter (\<lambda>r. \<forall>p. pid r = Some p \<longrightarrow> p \<notin> prior_pids prev_rows) cur_rows,
                    length (filter (\<lambda>r. \<forall>p. pid r = Some p \<longrightarrow> p \<notin> prior_pids prev_rows) cur_rows)))
   \<and> (find_previous_run_dir root query run_dir = Some prev \<and> e_results prev = Results [a1, a2]
       \<and> pid a1 = Some x \<and> pid a2 = Some y
       \<and> pid b1 = Some x \<and> pid b2 = Some y \<and> pid b3 = Some z \<and> z \<noteq> x \<and> z \<noteq> y
      \<longrightarrow> diff_stage root query run_dir (Results [b1, b2, b3]) = Some ([b3], 1))
   \<and> (run_from_extracted root query run_dir from_year to_year extracted = Inr res
      \<longrightarrow> diff res = diff_stage root query run_dir (Results (save_rows (final res))))"
proof (intro conjI impI)
  assume "root = None \<or> (\<exists>entries. root = Some entries \<and> (\<forall>d \<in> set entries. \<not> candidate query run_dir d))"
  then have "find_previous_run_dir root query run_dir = None" by (rule find_previous_None)
  then show "diff_stage root query run_dir cur = None" by (simp add: diff_stage_def)
next
  assume a: "root = Some entries \<and> d \<in> set entries \<and> candidate query run_dir d"
  then obtain prev where p: "find_previous_run_dir root query run_dir = Some prev"
    using find_previous_exists by blast
  from find_previous_Some [OF p] a p
  show "\<exists>prev. find_previous_run_dir root query run_dir = Some prev \<and> prev \<in> set entries
             \<and> candidate query run_dir prev
             \<and> (\<forall>d' \<in> set entries. candidate query run_dir d' \<longrightarrow> e_mtime d' \<le> e_mtime prev)"
    by auto
next
  assume "find_previous_run_dir root query run_dir = Some prev \<and> e_results prev = Results prev_rows"
  then show "diff_stage root query run_dir (Results cur_rows)
            = Some (filter (\<lambda>r. \<forall>p. pid r = Some p \<longrightarrow> p \<notin> prior_pids prev_rows) cur_rows,
                    length (filter (\<lambda>r. \<forall>p. pid r = Some p \<longrightarrow> p \<notin> prior_pids prev_rows) cur_rows))"
    by (simp add: diff_stage_def write_diff_csv_def rows_of_def Let_def new_rows_eq)
next
  assume "find_previous_run_dir root query run_dir = Some prev \<and> e_results prev = Results [a1, a2]
       \<and> pid a1 = Some x \<and> pid a2 = Some y
       \<and> pid b1 = Some x \<and> pid b2 = Some y \<and> pid b3 = Some z \<and> z \<noteq> x \<and> z \<noteq> y"
  then show "diff_stage root query run_dir (Results [b1, b2, b3]) = Some ([b3], 1)"
    by (auto simp add: diff_stage_def write_diff_csv_def rows_of_def Let_def new_rows_eq prior_pids_def)
next
  assume "run_from_extracted root query run_dir from_year to_year extracted = Inr res"
  then show "diff res = diff_stage root query run_dir (Results (save_rows (final res)))"
    by (auto simp: run_from_extracted_def Let_def split: sum.splits)
qed


theorem diff_is_new_primary_ids_witness:
  "find_previous_run_dir sample_root ''deep learning'' ''run_20250104_000000'' = Some (the sample_root ! 1)
   \<and> diff_stage sample_root ''deep learning'' ''run_20250104_000000'' (Results (save_rows [rec_x, rec_y, rec_z]))
       = Some ([row_of rec_z], 1)
   \<and> diff_stage sample_root ''proofs'' ''run_20250104_000000'' (Results (save_rows [rec_x, rec_y, rec_z])) = None"
proof -
  let ?dir = "''run_20250104_000000''"
  have f: "find_previous_run_dir sample_root ''deep learning'' ?dir = Some (the sample_root ! 1)"
    by code_simp
  have e: "e_results (the sample_root ! 1) = Results [row_of rec_x, row_of rec_y]" by code_simp
  have s: "save_rows [rec_x, rec_y, rec_z] = [row_of rec_x, row_of rec_y, row_of rec_z]"
    by (simp add: save_rows_def)
  have px: "pid (row_of rec_x) = Some ''10.1/x''" by code_simp
  have py: "pid (row_of rec_y) = Some ''arxiv:2401.00001''" by code_simp
  have pz: "pid (row_of rec_z) = Some ''10.1/z''" by code_simp
  have n: "\<forall>d \<in> set (the sample_root). \<not> candidate ''proofs'' ?dir d" by code_simp
  have r: "sample_root = Some (the sample_root)" by (simp add: sample_root_def)
  note main = diff_is_new_primary_ids [where root = sample_root and run_dir = ?dir
      and prev = "the sample_root ! 1" and ?a1.0 = "row_of rec_x" and ?a2.0 = "row_of rec_y"
      and ?b1.0 = "row_of rec_x" and ?b2.0 = "row_of rec_y" and ?b3.0 = "row_of rec_z"
      and x = "''10.1/x''" and y = "''arxiv:2401.00001''" and z = "''10.1/z''"]
  from main [where query = "''deep learning''"] f e px py pz
  have a: "diff_stage sample_root ''deep learning'' ?dir (Results [row_of rec_x, row_of rec_y, row_of rec_z])
       = Some ([row_of rec_z], 1)"
    by simp
  from main [where query = "''proofs''" and cur = "Results (save_rows [rec_x, rec_y, rec_z])"] n r
  have b: "diff_stage sample_root ''proofs'' ?dir (Results (save_rows [rec_x, rec_y, rec_z])) = None"
    by blast
  from f a b s show ?thesis by simp
qed


subsection \<open>arXiv identifiers and the PrimaryID\<close>

lemma prefix_split: "prefix t r \<Longrightarrow> r = t @ drop (length t) r"
  by (auto simp: prefix_def)

lemma modern_at_prefix:
  assumes "modern_at s = Some m"
  shows "prefix m s"
proof -
  from assms obtain r' where d: "drop 4 s = CHR ''.'' # r'"
    by (auto simp: modern_at_def Let_def split: if_splits list.splits)
  then have s: "s = take 4 s @ CHR ''.'' # r'" by (metis append_take_drop_id)
  let ?T = "takeWhile py_isdecimal (take 5 r')"
  have pT: "prefix ?T r'"
    by (meson prefix_order.trans takeWhile_is_prefix take_is_prefix)
  from assms d consider (short) "m = take 4 s @ CHR ''.'' # ?T"
    | (version) x where "drop (length ?T) r' = CHR ''v'' # x"
        "m = take 4 s @ CHR ''.'' # ?T @ CHR ''v'' # takeWhile py_isdecimal x"
    by (auto simp: modern_at_def Let_def split: if_splits list.splits)
  then show ?thesis
  proof cases
    case short
    from pT have "prefix (take 4 s @ CHR ''.'' # ?T) (take 4 s @ CHR ''.'' # r')" by simp
    with s short show ?thesis by simp
  next
    case (version x)
    from prefix_split [OF pT] version(1) have r': "r' = ?T @ CHR ''v'' # x" by simp
    have "prefix (takeWhile py_isdecimal x) x" by (rule takeWhile_is_prefix)
    then have "prefix (?T @ CHR ''v'' # takeWhile py_isdecimal x) (?T @ CHR ''v'' # x)" by simp
    with r' have "prefix (?T @ CHR ''v'' # takeWhile py_isdecimal x) r'" by simp
    then have "prefix (take 4 s @ CHR ''.'' # ?T @ CHR ''v'' # takeWhile py_isdecimal x) (take 4 s @ CHR ''.'' # r')"
      by simp
    with s version(2) show ?thesis by simp
  qed
qed

lemma search_modern_sublist: "search_modern s = Some m \<Longrightarrow> sublist m s"
proof (induction s)
  case Nil
  then show ?case by simp
next
  case (Cons c cs)
  show ?case
  proof (cases "modern_at (c # cs)")
    case None
    with Cons show ?thesis by (simp add: sublist_Cons_right)
  next
    case (Some a)
    with Cons.prems have "a = m" by simp
    with Some show ?thesis using modern_at_prefix prefix_imp_sublist by blast
  qed
qed

lemma legacy_at_sublist:
  assumes "legacy_at s = Some g"
  shows "sublist g s"
proof -
  from assms obtain r r2 r3 where a: "imatch_lit ''arxiv.org/'' s = Some r"
    and b: "imatch_lit ''abs'' r = Some r2 \<or> imatch_lit ''pdf'' r = Some r2"
    and c: "imatch_lit ''/'' r2 = Some r3"
    and g: "g = takeWhile (\<lambda>c. c \<noteq> CHR ''/'' \<and> c \<noteq> CHR ''?'' \<and> c \<noteq> CHR ''#'') r3"
    by (auto simp: legacy_at_def Let_def split: option.splits if_splits)
  from a b c have "suffix r3 s"
    by (meson imatch_lit_suffix' suffix_order.trans)
  moreover from g have "prefix g r3" by (simp add: takeWhile_is_prefix)
  ultimately show ?thesis
    unfolding sublist_altdef' by blast
qed

lemma search_legacy_sublist: "search_legacy s = Some g \<Longrightarrow> sublist g s"
proof (induction s)
  case Nil
  then show ?case by simp
next
  case (Cons c cs)
  show ?case
  proof (cases "legacy_at (c # cs)")
    case None
    with Cons show ?thesis by (simp add: sublist_Cons_right)
  next
    case (Some a)
    with Cons.prems have "a = g" by simp
    with Some show ?thesis using legacy_at_sublist by blast
  qed
qed

lemma extract_arxiv_id_sublist:
  "extract_arxiv_id (Some u) = Some y \<Longrightarrow> sublist y (py_strip u)"
  by (auto simp: extract_arxiv_id_def Let_def split: if_splits option.splits
      dest: search_modern_sublist search_legacy_sublist)

lemma py_strip_lower: "py_strip (py_lower s) = py_lower (py_strip s)"
proof -
  have c: "py_isspace \<circ> py_lower_char = py_isspace" by (auto simp: py_isspace_lower_char)
  show ?thesis
    by (simp add: py_strip_def py_rstrip_def py_lstrip_def py_lower_def dropWhile_map rev_map c)
qed

lemma primary_id_no_doi:
  assumes "\<not> truthy (doi r)"
  shows "primary_id_from_row r =
     (if py_strip (or_empty (arxiv_id r)) = [] then None
      else Some (''arxiv:'' @ py_lower (py_strip (or_empty (arxiv_id r)))))"
proof -
  from assms have "or_empty (doi r) = []" by (auto simp: truthy_def or_empty_def split: option.splits)
  then show ?thesis
    by (simp add: primary_id_from_row_def py_strip_def py_lstrip_def py_rstrip_def py_lower_def)
qed

lemma pid_row_of: "pid (row_of r) = primary_id_from_row r"
  by (simp add: pid_def row_of_def)

text \<open>
  Claim C8, as amended. \<open>extract_arxiv_id\<close> returns a contiguous piece of the trimmed
  input, its letter case unchanged: it never lowercases. The PrimaryID of a stored row,
  which is what is persisted and what the diff compares, is for a record with no DOI
  and a non-blank arXiv id \<open>arxiv:\<close> followed by the id trimmed and lowercased, so two
  such records whose arXiv ids differ only in letter case have the same PrimaryID.
\<close>

theorem arxiv_primary_id_amended:
  "(extract_arxiv_id (Some u) = Some y \<longrightarrow> sublist y (py_strip u))
   \<and> (\<not> truthy (doi r) \<and> py_strip (or_empty (arxiv_id r)) \<noteq> [] \<longrightarrow>
        pid (row_of r) = Some (''arxiv:'' @ py_lower (py_strip (or_empty (arxiv_id r)))))
   \<and> (\<not> truthy (doi r1) \<and> \<not> truthy (doi r2)
        \<and> py_lower (or_empty (arxiv_id r1)) = py_lower (or_empty (arxiv_id r2)) \<longrightarrow>
        pid (row_of r1) = pid (row_of r2))"
proof (intro conjI impI)
  assume "extract_arxiv_id (Some u) = Some y"
  then show "sublist y (py_strip u)" by (rule extract_arxiv_id_sublist)
next
  assume "\<not> truthy (doi r) \<and> py_strip (or_empty (arxiv_id r)) \<noteq> []"
  then show "pid (row_of r) = Some (''arxiv:'' @ py_lower (py_strip (or_empty (arxiv_id r))))"
    by (simp add: pid_row_of primary_id_no_doi)
next
  assume a: "\<not> truthy (doi r1) \<and> \<not> truthy (doi r2)
        \<and> py_lower (or_empty (arxiv_id r1)) = py_lower (or_empty (arxiv_id r2))"
  then have "py_lower (py_strip (or_empty (arxiv_id r1))) = py_lower (py_strip (or_empty (arxiv_id r2)))"
    by (metis py_strip_lower)
  moreover have "py_strip (or_empty (arxiv_id r1)) = [] \<longleftrightarrow> py_strip (or_empty (arxiv_id r2)) = []"
    using calculation by (metis py_lower_def map_is_Nil_conv)
  ultimately show "pid (row_of r1) = pid (row_of r2)"
    using a by (simp add: pid_row_of primary_id_no_doi)
qed

theorem arxiv_primary_id_counterexample:
  "extract_arxiv_id (Some ''http://arxiv.org/abs/HEP-TH/9901001'') = Some ''HEP-TH''
   \<and> py_lower ''HEP-TH'' \<noteq> ''HEP-TH''"
  by code_simp

theorem arxiv_primary_id_amended_witness:
  "extract_arxiv_id (Some '' http://arxiv.org/abs/HEP-TH/9901001'') = Some ''HEP-TH''
   \<and> sublist ''HEP-TH'' ''http://arxiv.org/abs/HEP-TH/9901001''
   \<and> pid (row_of (rec0 ''arxiv'' None (Some ''HEP-TH'') ''T'' None)) = Some ''arxiv:hep-th''
   \<and> pid (row_of (rec0 ''arxiv'' None (Some ''HEP-TH'') ''T'' None))
       = pid (row_of (rec0 ''arxiv'' (Some []) (Some ''hep-th'') ''U'' None))"
proof -
  let ?r1 = "rec0 ''arxiv'' None (Some ''HEP-TH'') ''T'' None"
  let ?r2 = "rec0 ''arxiv'' (Some []) (Some ''hep-th'') ''U'' None"
  have e: "extract_arxiv_id (Some '' http://arxiv.org/abs/HEP-TH/9901001'') = Some ''HEP-TH''" by code_simp
  have s: "py_strip '' http://arxiv.org/abs/HEP-TH/9901001'' = ''http://arxiv.org/abs/HEP-TH/9901001''" by code_simp
  have d: "\<not> truthy (doi ?r1)" "\<not> truthy (doi ?r2)" by code_simp+
  have n: "py_strip (or_empty (arxiv_id ?r1)) \<noteq> []" by code_simp
  have l: "''arxiv:'' @ py_lower (py_strip (or_empty (arxiv_id ?r1))) = ''arxiv:hep-th''" by code_simp
  have q: "py_lower (or_empty (arxiv_id ?r1)) = py_lower (or_empty (arxiv_id ?r2))" by code_simp
  note main = arxiv_primary_id_amended [where u = "'' http://arxiv.org/abs/HEP-TH/9901001''"
      and y = "''HEP-TH''" and r = ?r1 and ?r1.0 = ?r1 and ?r2.0 = ?r2]
  from main e s have a: "sublist ''HEP-TH'' ''http://arxiv.org/abs/HEP-TH/9901001''" by simp
  from main d n l have b: "pid (row_of ?r1) = Some ''arxiv:hep-th''" by simp
  from main d q have c: "pid (row_of ?r1) = pid (row_of ?r2)" by blast
  from e a b c show ?thesis by simp
qed


subsection \<open>Retries\<close>


lemma sleep_after_no_header [simp]: "sleep_after to_float None = None"
  by (simp add: sleep_after_def truthy_def)













subsection \<open>Cursor-based pagination\<close>

lemma fetched_upto_Suc:
  "fetched_upto loads body (Suc j) = fetched_upto loads body j + items_len loads (body j)"
  by (simp add: fetched_upto_def)

lemma crossref_loop_pages:
  assumes ok: "\<forall>j < n. page_fetched net loads body u headers p0 k0 j"
    and cont: "\<forall>j. Suc j < n \<longrightarrow> \<not> page_stops loads body limit j"
    and fin: "n = m \<or> (0 < n \<and> page_stops loads body limit (n - 1))"
    and le: "n \<le> m"
  shows "j < n \<Longrightarrow>
     crossref_loop to_float net loads u headers limit (m - j) (params_at loads body p0 j)
       (fetched_upto loads body j) (map body [0..<j]) (k0 + j)
     = (Inr (map body [0..<n]), k0 + n)"
proof (induction "n - j" arbitrary: j)
  case 0
  then show ?case by simp
next
  case (Suc d)
  from Suc.prems le obtain m' where m': "m - j = Suc m'" and m'': "m - Suc j = m'"
    by (metis Suc_diff_Suc diff_Suc_eq_diff_pred less_le_trans)
  from ok Suc.prems have pf: "page_fetched net loads body u headers p0 k0 j" by blast
  then obtain l ra where net: "net (k0 + j) \<lparr>rq_url = u, rq_params = params_at loads body p0 j, rq_headers = headers\<rparr>
        = Response 200 (body j) ra" and ne: "body j \<noteq> []"
    and len: "py_len (fst (parse_page loads (body j))) = Some l"
    by (auto simp: page_fetched_def split: outcome.splits)
  have hg: "http_get to_float net \<lparr>rq_url = u, rq_params = params_at loads body p0 j, rq_headers = headers\<rparr> 5 (k0 + j)
      = (Inr (200, body j), Suc (k0 + j))"
    using net by (simp add: http_get_def eval_nat_numeral)
  have il: "items_len loads (body j) = l" using len by (simp add: items_len_def)
  have tr: "json_truthy (fst (parse_page loads (body j))) \<longleftrightarrow> l \<noteq> 0"
    using len by (cases "fst (parse_page loads (body j))") auto
  obtain items cur where pp: "parse_page loads (body j) = (items, cur)" by (cases "parse_page loads (body j)")
  have stop_iff: "page_stops loads body limit j \<longleftrightarrow>
      (\<not> json_truthy items \<or> limit \<le> int (fetched_upto loads body j + l) \<or> \<not> json_truthy cur)"
    using pp tr il by (simp add: page_stops_def fetched_upto_Suc)
  show ?case
  proof (cases "Suc j < n")
    case True
    with cont have ns: "\<not> page_stops loads body limit j" by blast
    from Suc.hyps(2) True have "d = n - Suc j" by simp
    from Suc.hyps(1) [OF this True]
    have ih: "crossref_loop to_float net loads u headers limit m' (AList.update ''cursor'' cur (params_at loads body p0 j))
       (fetched_upto loads body j + l) (map body [0..<j] @ [body j]) (Suc (k0 + j))
     = (Inr (map body [0..<n]), k0 + n)" using m'' pp il by (simp add: fetched_upto_Suc)
    from ns stop_iff have c: "json_truthy items" "\<not> limit \<le> int (fetched_upto loads body j + l)" "json_truthy cur"
      by auto
    show ?thesis
      unfolding m' crossref_loop.simps hg
      using ne pp len c ih by simp
  next
    case False
    with Suc.prems have nj: "n = Suc j" by simp
    show ?thesis
    proof (cases "page_stops loads body limit j")
      case True
      with stop_iff have c: "\<not> json_truthy items \<or> limit \<le> int (fetched_upto loads body j + l) \<or> \<not> json_truthy cur"
        by simp
      show ?thesis
        unfolding m' crossref_loop.simps hg
        using ne pp len c nj by auto
    next
      case False
      with fin nj have "n = m" by simp
      with nj m'' have z: "m' = 0" by simp
      from False stop_iff have c: "json_truthy items" "\<not> limit \<le> int (fetched_upto loads body j + l)" "json_truthy cur"
        by auto
      show ?thesis
        unfolding m' crossref_loop.simps hg
        using ne pp len c nj z by simp
    qed
  qed
qed

lemma cursor_pagination_stops:
  "n \<le> m
   \<and> (\<forall>j < n. page_fetched net loads body u headers p0 k0 j)
   \<and> (\<forall>j. Suc j < n \<longrightarrow> \<not> page_stops loads body limit j)
   \<and> (n = m \<or> (0 < n \<and> page_stops loads body limit (n - 1)))
   \<longrightarrow> crossref_loop to_float net loads u headers limit m p0 0 [] k0 = (Inr (map body [0..<n]), k0 + n)"
proof (intro impI, elim conjE)
  assume le: "n \<le> m" and ok: "\<forall>j < n. page_fetched net loads body u headers p0 k0 j"
    and cont: "\<forall>j. Suc j < n \<longrightarrow> \<not> page_stops loads body limit j"
    and fin: "n = m \<or> (0 < n \<and> page_stops loads body limit (n - 1))"
  show "crossref_loop to_float net loads u headers limit m p0 0 [] k0 = (Inr (map body [0..<n]), k0 + n)"
  proof (cases "n = 0")
    case True
    with fin have "m = 0" by simp
    with True show ?thesis by simp
  next
    case False
    then have "0 < n" by simp
    from crossref_loop_pages [OF ok cont fin le this, of to_float] show ?thesis
      by (simp add: fetched_upto_def)
  qed
qed

text \<open>
  Claim C9. Let the first \<open>n\<close> requests of the cursor-based fetch each be answered
  with status 200 and a non-empty body, the cursor of each request after the first being
  the next-cursor of the page before. If none of the pages before the last stops the
  loop, and the last page has zero items, or brings the cumulative item count to the
  cap, or has no next cursor, or is page number \<open>max_pages\<close>, then the fetch returns
  exactly those \<open>n\<close> bodies, in order, and has made exactly \<open>n\<close> requests. With a
  null next-cursor on page 3 it returns 3 bodies and makes no 4th request.
\<close>

theorem cursor_pagination:
  "n \<le> page_cap spec
   \<and> (\<forall>j < n. page_fetched net loads body (sp_url spec) (request_headers spec contact_email)
                 (crossref_params spec) k0 j)
   \<and> (\<forall>j. Suc j < n \<longrightarrow> \<not> page_stops loads body (item_cap spec) j)
   \<and> (n = page_cap spec \<or> (0 < n \<and> page_stops loads body (item_cap spec) (n - 1)))
   \<longrightarrow> paginate_crossref to_float net loads spec contact_email k0 = (Inr (map body [0..<n]), k0 + n)"
  using cursor_pagination_stops [of n "page_cap spec" net loads body "sp_url spec"
      "request_headers spec contact_email" "crossref_params spec" k0 "item_cap spec" to_float]
  by (simp add: paginate_crossref_def Let_def page_cap_def item_cap_def request_headers_def)

theorem cursor_pagination_witness:
  "paginate_crossref sample_float cursor_server sample_loads sample_spec ''a@b.c'' 0
     = (Inr [''page1'', ''page2'', ''page3''], 3)
   \<and> snd (parse_page sample_loads ''page3'') = JNull"
proof -
  let ?pf = "page_fetched cursor_server sample_loads three_pages (sp_url sample_spec)
               (request_headers sample_spec ''a@b.c'') (crossref_params sample_spec) 0"
  let ?ps = "page_stops sample_loads three_pages (item_cap sample_spec)"
  have c: "3 \<le> page_cap sample_spec" by code_simp
  have p0: "?pf 0" by code_simp
  have p1: "?pf 1" by code_simp
  have p2: "?pf 2" by code_simp
  have f: "\<forall>j < 3. ?pf j"
  proof (intro allI impI)
    fix j :: nat assume "j < 3"
    then have "j = 0 \<or> j = 1 \<or> j = 2" by auto
    with p0 p1 p2 show "?pf j" by auto
  qed
  have s0: "\<not> ?ps 0" by code_simp
  have s1: "\<not> ?ps 1" by code_simp
  have s2: "?ps (3 - 1)" by code_simp
  have n: "snd (parse_page sample_loads ''page3'') = JNull" by code_simp
  have g: "\<forall>j. Suc j < 3 \<longrightarrow> \<not> ?ps j"
  proof (intro allI impI)
    fix j :: nat assume "Suc j < 3"
    then have "j = 0 \<or> j = 1" by auto
    with s0 s1 show "\<not> ?ps j" by auto
  qed
  have m: "map three_pages [0..<3] = [''page1'', ''page2'', ''page3'']" by code_simp
  have z: "(0::nat) < 3" by simp
  from c f g s2 z
  have prem: "3 \<le> page_cap sample_spec \<and> (\<forall>j < 3. ?pf j) \<and> (\<forall>j. Suc j < 3 \<longrightarrow> \<not> ?ps j)
      \<and> (3 = page_cap sample_spec \<or> ((0::nat) < 3 \<and> ?ps (3 - 1)))"
    by (intro conjI disjI2)
  note t = cursor_pagination [where n = 3 and spec = sample_spec and net = cursor_server
      and loads = sample_loads and body = three_pages and contact_email = "''a@b.c''" and ?k0.0 = 0
      and to_float = sample_float, THEN mp, OF prem]
  have "(0::nat) + 3 = 3" by simp
  with t m have "paginate_crossref sample_float cursor_server sample_loads sample_spec ''a@b.c'' 0
     = (Inr [''page1'', ''page2'', ''page3''], 3)"
    by (simp only:)
  with n show ?thesis by (intro conjI)
qed

end
